theory Spec2Isabelle
  imports Main "HOL-Library.AList"
begin

section \<open>Strings and values\<close>

text \<open>
  A JavaScript string is modelled as a HOL \<open>string\<close>: a list of code units, each
  below 256. A value read out of a parsed row is either a string or \<open>undefined\<close>
  (the column is absent), so it is a \<open>string option\<close> with \<open>None\<close> for
  \<open>undefined\<close>.
\<close>

type_synonym jsvalue = "string option"

text \<open>\<open>'' + value\<close>: the string conversion of a value.\<close>

definition toString :: "jsvalue \<Rightarrow> string" where
  "toString v = (case v of None \<Rightarrow> ''undefined'' | Some s \<Rightarrow> s)"

text \<open>
  The white space and line terminator code units that \<open>String.prototype.trim\<close>,
  \<open>parseFloat\<close> and the string-to-number conversion strip: TAB, LF, VT, FF, CR, SP
  and NBSP (the ones below 256).
\<close>

definition isWhiteSpace :: "char \<Rightarrow> bool" where
  "isWhiteSpace c = (of_char c \<in> {9, 10, 11, 12, 13, 32, 160 :: nat})"

definition trimStart :: "string \<Rightarrow> string" where
  "trimStart s = dropWhile isWhiteSpace s"

definition trim :: "string \<Rightarrow> string" where
  "trim s = rev (dropWhile isWhiteSpace (rev (dropWhile isWhiteSpace s)))"

definition isDigit :: "char \<Rightarrow> bool" where
  "isDigit c = (c \<in> set ''0123456789'')"

definition digitValue :: "char \<Rightarrow> int" where
  "digitValue c = of_char c - 48"

text \<open>The number a run of decimal digits denotes (\<open>toInt\<close> on a digit string).\<close>

definition toInt :: "string \<Rightarrow> int" where
  "toInt ds = foldl (\<lambda>n c. 10 * n + digitValue c) 0 ds"

section \<open>The date validator: \<open>moment(Date, "YYYY-MM-DD", true).isValid()\<close>\<close>

text \<open>
  The source calls the moment library in strict mode with the fixed format
  \<open>YYYY-MM-DD\<close>. The library splits the format into the tokens
  \<open>YYYY\<close>, \<open>-\<close>, \<open>MM\<close>, \<open>-\<close>, \<open>DD\<close> and, for each token in turn,
  searches the remaining input for the token's strict pattern
  (\<open>\d{4}\<close>, \<open>\d\d\<close>, or the literal character), skipping what precedes the
  match. It counts the matched characters and collects the tokens that found no match.
\<close>

datatype token = YYYY | MM | DD | Lit char

definition formatTokens :: "token list" where
  "formatTokens = [YYYY, Lit CHR ''-'', MM, Lit CHR ''-'', DD]"

text \<open>
  The leftmost match of \<open>\d{n}\<close> in \<open>s\<close>: the skipped prefix, the matched text
  and the rest of the input.
\<close>

fun matchDigits :: "nat \<Rightarrow> string \<Rightarrow> (string \<times> string \<times> string) option" where
  "matchDigits n [] = (if n = 0 then Some ([], [], []) else None)"
| "matchDigits n (c # cs) =
     (if n \<le> length (c # cs) \<and> list_all isDigit (take n (c # cs))
      then Some ([], take n (c # cs), drop n (c # cs))
      else map_option (\<lambda>(skipped, m, r). (c # skipped, m, r)) (matchDigits n cs))"

text \<open>The leftmost occurrence of a literal character.\<close>

fun matchLit :: "char \<Rightarrow> string \<Rightarrow> (string \<times> string \<times> string) option" where
  "matchLit l [] = None"
| "matchLit l (c # cs) =
     (if c = l then Some ([], [c], cs)
      else map_option (\<lambda>(skipped, m, r). (c # skipped, m, r)) (matchLit l cs))"

definition getParseRegexForToken :: "token \<Rightarrow> string \<Rightarrow> (string \<times> string \<times> string) option" where
  "getParseRegexForToken t s =
     (case t of YYYY \<Rightarrow> matchDigits 4 s | MM \<Rightarrow> matchDigits 2 s | DD \<Rightarrow> matchDigits 2 s
      | Lit l \<Rightarrow> matchLit l s)"

record config =
  remaining :: string
  totalParsedInputLength :: nat
  unusedTokens :: "token list"
  aYEAR :: "int option"
  aMONTH :: "int option"
  aDATE :: "int option"

text \<open>
  \<open>addTimeToArrayFromToken\<close>: the year is the parsed number, the month is stored
  zero-based, the day as parsed. A literal stores nothing.
\<close>

definition addTimeToArrayFromToken :: "token \<Rightarrow> string \<Rightarrow> config \<Rightarrow> config" where
  "addTimeToArrayFromToken t input c =
     (case t of
        YYYY \<Rightarrow> c\<lparr>aYEAR := Some (toInt input)\<rparr>
      | MM \<Rightarrow> c\<lparr>aMONTH := Some (toInt input - 1)\<rparr>
      | DD \<Rightarrow> c\<lparr>aDATE := Some (toInt input)\<rparr>
      | Lit l \<Rightarrow> c)"

text \<open>
  One round of the token loop of \<open>configFromStringAndFormat\<close>. On a match the input
  is cut after the match and the matched length is added; without a match the token is
  recorded as unused (in strict mode also for a literal) and the input is left as it is.
\<close>

definition parseToken :: "config \<Rightarrow> token \<Rightarrow> config" where
  "parseToken c t =
     (case getParseRegexForToken t (remaining c) of
        None \<Rightarrow> c\<lparr>unusedTokens := unusedTokens c @ [t]\<rparr>
      | Some (skipped, parsedInput, rest) \<Rightarrow>
          addTimeToArrayFromToken t parsedInput
            (c\<lparr>remaining := rest,
               totalParsedInputLength := totalParsedInputLength c + length parsedInput\<rparr>))"

definition configFromStringAndFormat :: "string \<Rightarrow> config" where
  "configFromStringAndFormat s =
     foldl parseToken
       \<lparr>remaining = s, totalParsedInputLength = 0, unusedTokens = [],
        aYEAR = None, aMONTH = None, aDATE = None\<rparr>
       formatTokens"

definition isLeapYear :: "int \<Rightarrow> bool" where
  "isLeapYear year = ((year mod 4 = 0 \<and> year mod 100 \<noteq> 0) \<or> year mod 400 = 0)"

definition daysInMonth :: "int \<Rightarrow> int \<Rightarrow> int" where
  "daysInMonth year month =
     (let modMonth = month mod 12;
          year' = year + (month - modMonth) div 12
      in if modMonth = 1 then (if isLeapYear year' then 29 else 28)
         else 31 - ((modMonth mod 7) mod 2))"

text \<open>
  \<open>checkOverflow\<close>, restricted to the month and the day (the time fields are all
  zero for this format): true when month or day is out of range.
\<close>

definition checkOverflow :: "int \<Rightarrow> int \<Rightarrow> int \<Rightarrow> bool" where
  "checkOverflow year month date =
     (month < 0 \<or> month > 11 \<or> date < 1 \<or> date > daysInMonth year month)"

text \<open>
  Validity in strict mode: no overflow, every character of the input consumed by a
  match (\<open>charsLeftOver = 0\<close>) and no unused token. When no token is unused, year,
  month and day have all been parsed, so the library's defaulting of missing fields to
  the current date plays no part; the model answers false there.
\<close>

definition momentIsValid :: "string \<Rightarrow> bool" where
  "momentIsValid s =
     (let c = configFromStringAndFormat s;
          charsLeftOver = int (length s) - int (totalParsedInputLength c)
      in charsLeftOver = 0 \<and> unusedTokens c = [] \<and>
         (case (aYEAR c, aMONTH c, aDATE c) of
            (Some y, Some m, Some d) \<Rightarrow> \<not> checkOverflow y m d
          | _ \<Rightarrow> False))"

text \<open>The check of the data handler: the value is converted to a string first.\<close>

definition isValidDate :: "jsvalue \<Rightarrow> bool" where
  "isValidDate v = momentIsValid (toString v)"

section \<open>The date format as the specification words it\<close>

text \<open>
  The specification's reading of the date check, written without reference to the
  library: the value has the shape of four digits, a hyphen, two digits, a hyphen and two
  digits, and year, month and day denote a date of the (proleptic) Gregorian calendar.
\<close>

definition isoDateShape :: "string \<Rightarrow> bool" where
  "isoDateShape s =
     (length s = 10 \<and> list_all isDigit (take 4 s) \<and> s ! 4 = CHR ''-'' \<and>
      list_all isDigit (take 2 (drop 5 s)) \<and> s ! 7 = CHR ''-'' \<and>
      list_all isDigit (drop 8 s))"

definition leapYear :: "int \<Rightarrow> bool" where
  "leapYear y = (4 dvd y \<and> (\<not> 100 dvd y \<or> 400 dvd y))"

definition monthLength :: "int \<Rightarrow> int \<Rightarrow> int" where
  "monthLength y m =
     (if m = 2 then (if leapYear y then 29 else 28)
      else if m \<in> {4, 6, 9, 11} then 30 else 31)"

definition realCalendarDate :: "int \<Rightarrow> int \<Rightarrow> int \<Rightarrow> bool" where
  "realCalendarDate y m d = (1 \<le> m \<and> m \<le> 12 \<and> 1 \<le> d \<and> d \<le> monthLength y m)"

definition specValidDate :: "string \<Rightarrow> bool" where
  "specValidDate s =
     (isoDateShape s \<and>
      realCalendarDate (toInt (take 4 s)) (toInt (take 2 (drop 5 s))) (toInt (drop 8 s)))"

section \<open>The numeric validator: \<open>!isNaN(parseFloat(value)) && isFinite(value)\<close>\<close>

text \<open>
  \<open>isNaN\<close> and \<open>isFinite\<close> read of a Number only whether it is NaN, infinite
  or finite, so the model keeps exactly that of every Number.
\<close>

datatype number = NaN | Infinite | Finite

text \<open>
  A parsed decimal literal: \<open>Infinity\<close>, or integer digits, fraction digits and
  exponent. The sign is dropped: it does not change whether the value is finite.
\<close>

datatype literal = InfinityLiteral | Decimal string string int

text \<open>
  The optional exponent part at the head of the input: \<open>e\<close> or \<open>E\<close>, an
  optional sign and at least one digit. Without it nothing is consumed.
\<close>

definition exponentPart :: "string \<Rightarrow> int \<times> string" where
  "exponentPart s =
     (case s of
        [] \<Rightarrow> (0, s)
      | c # r \<Rightarrow>
          if c = CHR ''e'' \<or> c = CHR ''E'' then
            (let neg = (r \<noteq> [] \<and> hd r = CHR ''-'');
                 r' = (if r \<noteq> [] \<and> (hd r = CHR ''+'' \<or> hd r = CHR ''-'') then tl r else r);
                 ds = takeWhile isDigit r'
             in if ds = [] then (0, s)
                else (if neg then - toInt ds else toInt ds, dropWhile isDigit r'))
          else (0, s))"

text \<open>
  The longest prefix of the input that is a \<open>StrUnsignedDecimalLiteral\<close> of the
  language's numeric string grammar, and the rest of the input:
  \<open>Infinity\<close>, digits with an optional fraction, or a fraction that starts with
  the dot, each with an optional exponent.
\<close>

definition strUnsignedDecimalLiteral :: "string \<Rightarrow> (literal \<times> string) option" where
  "strUnsignedDecimalLiteral s =
     (if take 8 s = ''Infinity'' then Some (InfinityLiteral, drop 8 s)
      else
        let ip = takeWhile isDigit s; r1 = dropWhile isDigit s
        in if r1 \<noteq> [] \<and> hd r1 = CHR ''.'' then
             (let fp = takeWhile isDigit (tl r1); r2 = dropWhile isDigit (tl r1)
              in if ip = [] \<and> fp = [] then None
                 else Some (Decimal ip fp (fst (exponentPart r2)), snd (exponentPart r2)))
           else if ip = [] then None
           else Some (Decimal ip [] (fst (exponentPart r1)), snd (exponentPart r1)))"

text \<open>\<open>StrDecimalLiteral\<close>: an optional sign before the unsigned literal.\<close>

definition strDecimalLiteral :: "string \<Rightarrow> (literal \<times> string) option" where
  "strDecimalLiteral s =
     (if s \<noteq> [] \<and> (hd s = CHR ''+'' \<or> hd s = CHR ''-'') then strUnsignedDecimalLiteral (tl s)
      else strUnsignedDecimalLiteral s)"

text \<open>
  A mathematical value \<open>m * 10 ^ k\<close> rounds to an infinite Number when it reaches
  \<open>2 ^ 1024 - 2 ^ 970\<close>, halfway between the largest finite double and
  \<open>2 ^ 1024\<close>. The rounding is taken to be exact (to the nearest double, ties to
  even), whatever the number of digits.
\<close>

definition overflowThreshold :: int where
  "overflowThreshold = 2 ^ 1024 - 2 ^ 970"

definition roundsToInfinity :: "int \<Rightarrow> int \<Rightarrow> bool" where
  "roundsToInfinity m k =
     (if 0 \<le> k then overflowThreshold \<le> m * 10 ^ nat k
      else overflowThreshold * 10 ^ nat (- k) \<le> m)"

definition classify :: "literal \<Rightarrow> number" where
  "classify l =
     (case l of
        InfinityLiteral \<Rightarrow> Infinite
      | Decimal ip fp e \<Rightarrow>
          if roundsToInfinity (toInt (ip @ fp)) (e - int (length fp)) then Infinite else Finite)"

text \<open>
  \<open>parseFloat\<close>: the argument is converted to a string, leading white space is
  dropped, and the longest decimal-literal prefix is read; without one the result is NaN.
\<close>

definition parseFloat :: "jsvalue \<Rightarrow> number" where
  "parseFloat v =
     (case strDecimalLiteral (trimStart (toString v)) of
        None \<Rightarrow> NaN
      | Some (l, rest) \<Rightarrow> classify l)"

text \<open>
  The non-decimal integer literals of the numeric string grammar: \<open>0x\<close>, \<open>0o\<close>
  or \<open>0b\<close> (in either case) followed by at least one digit of that radix.
\<close>

definition radixDigit :: "char \<Rightarrow> int" where
  "radixDigit c =
     (if isDigit c then of_char c - 48
      else if c \<in> set ''abcdef'' then of_char c - 87
      else of_char c - 55)"

definition radixValue :: "int \<Rightarrow> string \<Rightarrow> int" where
  "radixValue b ds = foldl (\<lambda>n c. b * n + radixDigit c) 0 ds"

definition nonDecimalIntegerLiteral :: "string \<Rightarrow> int option" where
  "nonDecimalIntegerLiteral s =
     (case s of
        z # x # ds \<Rightarrow>
          if z = CHR ''0'' \<and> ds \<noteq> [] then
            (if x \<in> set ''xX'' \<and> list_all (\<lambda>c. c \<in> set ''0123456789abcdefABCDEF'') ds
               then Some (radixValue 16 ds)
             else if x \<in> set ''oO'' \<and> list_all (\<lambda>c. c \<in> set ''01234567'') ds
               then Some (radixValue 8 ds)
             else if x \<in> set ''bB'' \<and> list_all (\<lambda>c. c \<in> set ''01'') ds
               then Some (radixValue 2 ds)
             else None)
          else None
      | _ \<Rightarrow> None)"

text \<open>
  The conversion of a string to a Number: white space is trimmed on both sides; the
  empty string is \<open>0\<close>; otherwise the whole string has to be a decimal literal or a
  non-decimal integer literal, and anything else is NaN.
\<close>

definition stringToNumber :: "string \<Rightarrow> number" where
  "stringToNumber s =
     (let t = trim s
      in if t = [] then Finite
         else case strDecimalLiteral t of
                Some (l, []) \<Rightarrow> classify l
              | _ \<Rightarrow> (case nonDecimalIntegerLiteral t of
                         Some n \<Rightarrow> if roundsToInfinity n 0 then Infinite else Finite
                       | None \<Rightarrow> NaN))"

definition toNumber :: "jsvalue \<Rightarrow> number" where
  "toNumber v = (case v of None \<Rightarrow> NaN | Some s \<Rightarrow> stringToNumber s)"

definition isNaN :: "number \<Rightarrow> bool" where
  "isNaN n = (n = NaN)"

definition isFinite :: "jsvalue \<Rightarrow> bool" where
  "isFinite v = (toNumber v = Finite)"

definition isNumeric :: "jsvalue \<Rightarrow> bool" where
  "isNumeric v = (\<not> isNaN (parseFloat v) \<and> isFinite v)"

section \<open>Rows as the CSV parser builds them\<close>

text \<open>
  The parser library reads the first record as the header and turns every later record
  into an object that maps header names to cell values. An object is modelled as an
  association list in insertion order; it is only ever read by property name.
\<close>

type_synonym row = "(string \<times> string) list"

text \<open>Reading a property: \<open>undefined\<close> when the row has no such property.\<close>

definition getField :: "row \<Rightarrow> string \<Rightarrow> jsvalue" where
  "getField obj key = map_of obj key"

text \<open>
  The assignment \<open>o[header] = cell\<close>. Assigning a string to \<open>__proto__\<close> creates
  no property.
\<close>

definition setProperty :: "string \<Rightarrow> string \<Rightarrow> row \<Rightarrow> row" where
  "setProperty key v obj = (if key = ''__proto__'' then obj else AList.update key v obj)"

text \<open>The decimal rendering of an index, for the names of surplus cells.\<close>

fun showNat :: "nat \<Rightarrow> string" where
  "showNat n =
     (if n < 10 then [char_of (48 + n)]
      else showNat (n div 10) @ [char_of (48 + n mod 10)])"

declare showNat.simps [simp del]

text \<open>
  \<open>writeRow\<close> of the parser: cell \<open>index\<close> is stored under the header name at
  that index, unchanged, and under \<open>_index\<close> when the record has more cells than
  the header. A record with fewer cells leaves the remaining names unset.
\<close>

definition writeRow :: "string list \<Rightarrow> string list \<Rightarrow> row" where
  "writeRow headers cells =
     foldl (\<lambda>obj (index, cell).
              if index < length headers then setProperty (headers ! index) cell obj
              else setProperty (''_'' @ showNat index) cell obj)
       [] (enumerate 0 cells)"

text \<open>
  The events the parser emits for a parsed input: one \<open>headers\<close> event for the first
  record, one \<open>data\<close> event per later record in input order, and then \<open>end\<close>, or
  \<open>error\<close> with a message when the stream fails after the records read so far.
\<close>

datatype event = Headers "string list" | Data row | End | Error string

definition csvParser :: "string list list \<Rightarrow> string option \<Rightarrow> event list" where
  "csvParser records failure =
     (case records of
        [] \<Rightarrow> []
      | headers # rest \<Rightarrow> Headers headers # map (\<lambda>cells. Data (writeRow headers cells)) rest)
     @ [case failure of None \<Rightarrow> End | Some msg \<Rightarrow> Error msg]"

section \<open>The validation pipeline: \<open>validateCSVContent\<close>\<close>

definition requiredColumns :: "string list" where
  "requiredColumns =
     [''Date'', ''Symbol'', ''Series'', ''Prev Close'', ''Open'', ''High'', ''Low'', ''Last'',
      ''Close'', ''VWAP'', ''Volume'', ''Turnover'', ''Trades'', ''Deliverable Volume'',
      ''%Deliverble'']"

record accumulators =
  validRows :: "row list"
  invalidRows :: "row list"
  successfulRecords :: nat
  failedRecords :: nat

record summary = accumulators +
  totalRecords :: nat

text \<open>
  The three objects the callback is called with:
  \<open>{success: false, message: "Missing required columns", missingColumns}\<close>,
  \<open>{success: true, totalRecords, successfulRecords, failedRecords, validRows,
  invalidRows}\<close> and \<open>{success: false, message: err.message}\<close>.
\<close>

datatype validationResult =
    MissingColumns "string list"
  | Completed summary
  | StreamError string

definition success :: "validationResult \<Rightarrow> bool" where
  "success r = (case r of Completed s \<Rightarrow> True | _ \<Rightarrow> False)"

definition message :: "validationResult \<Rightarrow> string option" where
  "message r =
     (case r of
        MissingColumns cols \<Rightarrow> Some ''Missing required columns''
      | Completed s \<Rightarrow> None
      | StreamError msg \<Rightarrow> Some msg)"

text \<open>
  The variables of one call of \<open>validateCSVContent\<close>, and the calls of the callback
  \<open>cb\<close> made so far, in order.
\<close>

record validation = accumulators +
  headersSet :: "string set"
  callbacks :: "validationResult list"

definition initial :: validation where
  "initial =
     \<lparr>validRows = [], invalidRows = [], successfulRecords = 0, failedRecords = 0,
      headersSet = {}, callbacks = []\<rparr>"

text \<open>
  The \<open>headers\<close> handler. Its \<open>return cb(...)\<close> leaves the handler only: the
  stream is neither paused nor destroyed, and no flag is kept for the other handlers.
\<close>

definition onHeaders :: "string list \<Rightarrow> validation \<Rightarrow> validation" where
  "onHeaders headers st =
     (let st' = st\<lparr>headersSet := foldl (\<lambda>S header. insert (trim header) S) (headersSet st) headers\<rparr>;
          missingColumns = filter (\<lambda>col. col \<notin> headersSet st') requiredColumns
      in if length missingColumns > 0
         then st'\<lparr>callbacks := callbacks st' @ [MissingColumns missingColumns]\<rparr>
         else st')"

text \<open>The values the \<open>data\<close> handler collects in \<open>numericFields\<close>.\<close>

definition numericFields :: "row \<Rightarrow> jsvalue list" where
  "numericFields r =
     [getField r ''Prev Close'', getField r ''Open'', getField r ''High'', getField r ''Low'',
      getField r ''Last'', getField r ''Close'', getField r ''VWAP'', getField r ''Volume'',
      getField r ''Turnover'', getField r ''Trades'', getField r ''Deliverable Volume'',
      getField r ''%Deliverble'']"

text \<open>The flag \<open>isValid\<close> of the \<open>data\<close> handler, as the handler computes it.\<close>

definition rowIsValid :: "row \<Rightarrow> bool" where
  "rowIsValid r =
     (let isValid = True;
          isValid = (if \<not> isValidDate (getField r ''Date'') then False else isValid)
      in foldl (\<lambda>isValid field. if \<not> isNumeric field then False else isValid)
           isValid (numericFields r))"

definition onData :: "row \<Rightarrow> validation \<Rightarrow> validation" where
  "onData r st =
     (if rowIsValid r
      then st\<lparr>successfulRecords := successfulRecords st + 1, validRows := validRows st @ [r]\<rparr>
      else st\<lparr>failedRecords := failedRecords st + 1, invalidRows := invalidRows st @ [r]\<rparr>)"

definition onEnd :: "validation \<Rightarrow> validation" where
  "onEnd st =
     st\<lparr>callbacks := callbacks st @
        [Completed \<lparr>validRows = validRows st, invalidRows = invalidRows st,
           successfulRecords = successfulRecords st, failedRecords = failedRecords st,
           totalRecords = successfulRecords st + failedRecords st\<rparr>]\<rparr>"

definition onError :: "string \<Rightarrow> validation \<Rightarrow> validation" where
  "onError msg st = st\<lparr>callbacks := callbacks st @ [StreamError msg]\<rparr>"

definition handle :: "validation \<Rightarrow> event \<Rightarrow> validation" where
  "handle st e =
     (case e of
        Headers headers \<Rightarrow> onHeaders headers st
      | Data r \<Rightarrow> onData r st
      | End \<Rightarrow> onEnd st
      | Error msg \<Rightarrow> onError msg st)"

definition run :: "event list \<Rightarrow> validation" where
  "run events = foldl handle initial events"

text \<open>
  \<open>validateCSVContent\<close> on a parsed input: everything the callback receives, in order.
\<close>

definition validateCSVContent :: "string list list \<Rightarrow> string option \<Rightarrow> validationResult list" where
  "validateCSVContent records failure = callbacks (run (csvParser records failure))"

section \<open>The insertion step: \<open>insertValidRecords\<close>\<close>

text \<open>
  A document handed to the persistence gateway: persisted field names with the raw
  values of the row.
\<close>

type_synonym document = "(string \<times> jsvalue) list"

definition toDocument :: "row \<Rightarrow> document" where
  "toDocument r =
     [(''date'', getField r ''Date''), (''symbol'', getField r ''Symbol''),
      (''series'', getField r ''Series''), (''prev_close'', getField r ''Prev Close''),
      (''open'', getField r ''Open''), (''high'', getField r ''High''),
      (''low'', getField r ''Low''), (''last'', getField r ''Last''),
      (''close'', getField r ''Close''), (''vwap'', getField r ''VWAP''),
      (''volume'', getField r ''Volume''), (''turnover'', getField r ''Turnover''),
      (''trades'', getField r ''Trades''), (''deliverable'', getField r ''Deliverable Volume''),
      (''percentage_deliverable'', getField r ''%Deliverble'')]"

record request =
  reqValidRows :: "row list option"
  reqInvalidRows :: "row list option"
  validationDetails :: "validationResult option"

datatype ('e, 'i) response =
    Inserted nat string 'i "validationResult option"
  | DbFailed nat string 'e
  | NoValidRows nat string
  | ValidationFailed nat string validationResult

text \<open>
  The gateway's \<open>insertMany\<close> is a parameter: it returns the inserted records or
  fails. The result pairs the arguments of the gateway calls made, in order, with the
  response sent.
\<close>

definition insertValidRecords ::
  "(document list \<Rightarrow> 'e + 'i) \<Rightarrow> request \<Rightarrow> document list list \<times> ('e, 'i) response" where
  "insertValidRecords insertMany req =
     (let validRows = (case reqValidRows req of None \<Rightarrow> [] | Some rs \<Rightarrow> rs)
      in if length validRows > 0 then
           (let documents = map toDocument validRows
            in ([documents],
                case insertMany documents of
                  Inr insertedRecords \<Rightarrow>
                    Inserted 201 ''Records inserted successfully'' insertedRecords
                      (validationDetails req)
                | Inl error \<Rightarrow> DbFailed 500 ''DB insertion failed'' error))
         else ([], NoValidRows 400 ''No valid rows to insert into the database''))"

text \<open>
  The callback \<open>uploadCSV\<close> passes to \<open>validateCSVContent\<close>, with the next
  middleware of the route, \<open>insertValidRecords\<close>, in the place of \<open>next()\<close>.
\<close>

definition uploadCallback ::
  "(document list \<Rightarrow> 'e + 'i) \<Rightarrow> validationResult \<Rightarrow> document list list \<times> ('e, 'i) response" where
  "uploadCallback insertMany validationResult =
     (case validationResult of
        Completed s \<Rightarrow>
          insertValidRecords insertMany
            \<lparr>reqValidRows = Some (validRows s), reqInvalidRows = Some (invalidRows s),
             validationDetails = Some validationResult\<rparr>
      | _ \<Rightarrow> ([], ValidationFailed 400 ''CSV validation failed'' validationResult))"

section \<open>Notions of the specification\<close>

text \<open>
  The columns the specification gives the numeric validator: every required column
  other than \<open>Date\<close>, \<open>Symbol\<close> and \<open>Series\<close>.
\<close>

definition numericColumns :: "string list" where
  "numericColumns = filter (\<lambda>col. col \<notin> {''Date'', ''Symbol'', ''Series''}) requiredColumns"

text \<open>
  The decimal numbers of the specification, as texts: an optional sign before either
  \<open>Infinity\<close> or digits with an optional fraction (or a fraction that starts with
  the dot), with an optional exponent: \<open>e\<close> or \<open>E\<close>, an optional sign, digits.
  The second argument is the literal the text denotes.
\<close>

definition signText :: "string \<Rightarrow> bool" where
  "signText sg = (sg = [] \<or> sg = ''+'' \<or> sg = ''-'')"

definition exponentText :: "string \<Rightarrow> int \<Rightarrow> bool" where
  "exponentText ex e =
     ((ex = [] \<and> e = 0) \<or>
      (\<exists>c sg ds. (c = CHR ''e'' \<or> c = CHR ''E'') \<and> signText sg \<and> ds \<noteq> [] \<and>
         list_all isDigit ds \<and> ex = c # sg @ ds \<and>
         e = (if sg = ''-'' then - toInt ds else toInt ds)))"

definition unsignedText :: "string \<Rightarrow> literal \<Rightarrow> bool" where
  "unsignedText body l =
     ((body = ''Infinity'' \<and> l = InfinityLiteral) \<or>
      (\<exists>ip fp ex e. list_all isDigit ip \<and> list_all isDigit fp \<and> exponentText ex e \<and>
         l = Decimal ip fp e \<and>
         ((ip \<noteq> [] \<and> fp = [] \<and> body = ip @ ex) \<or>
          ((ip \<noteq> [] \<or> fp \<noteq> []) \<and> body = ip @ CHR ''.'' # fp @ ex))))"

definition decimalText :: "string \<Rightarrow> literal \<Rightarrow> bool" where
  "decimalText t l = (\<exists>sg body. signText sg \<and> t = sg @ body \<and> unsignedText body l)"

text \<open>
  A string parses as a finite decimal number when it is the text of a decimal number
  whose value is finite. Its executable counterpart reads the string with the parser of
  the numeric validator and requires that nothing is left over. A string is a finite
  non-decimal integer when the whole of it is a \<open>0x\<close>, \<open>0o\<close> or \<open>0b\<close>
  literal whose value is finite.
\<close>

definition finiteDecimalText :: "string \<Rightarrow> bool" where
  "finiteDecimalText t = (\<exists>l. decimalText t l \<and> classify l = Finite)"

definition finiteDecimal :: "string \<Rightarrow> bool" where
  "finiteDecimal t =
     (case strDecimalLiteral t of Some (l, []) \<Rightarrow> classify l = Finite | _ \<Rightarrow> False)"

definition finiteNonDecimal :: "string \<Rightarrow> bool" where
  "finiteNonDecimal t =
     (case nonDecimalIntegerLiteral t of
        Some n \<Rightarrow> \<not> roundsToInfinity n 0
      | None \<Rightarrow> False)"

text \<open>
  The original indices of the rows that satisfy a predicate, and the merge of two
  index-tagged sequences by index.
\<close>

definition originalIndices :: "('a \<Rightarrow> bool) \<Rightarrow> 'a list \<Rightarrow> nat list" where
  "originalIndices P rows = filter (\<lambda>i. P (rows ! i)) [0..<length rows]"

fun mergeByIndex :: "(nat \<times> 'a) list \<Rightarrow> (nat \<times> 'a) list \<Rightarrow> (nat \<times> 'a) list" where
  "mergeByIndex [] ys = ys"
| "mergeByIndex xs [] = xs"
| "mergeByIndex (x # xs) (y # ys) =
     (if fst x < fst y then x # mergeByIndex xs (y # ys) else y # mergeByIndex (x # xs) ys)"

text \<open>A header and two records used as concrete inputs.\<close>

definition sampleRecord :: "string list" where
  "sampleRecord =
     [''2024-10-22'', ''AAPL'', ''EQ'', ''150'', ''152'', ''153'', ''149'', ''151'', ''150.5'',
      ''151.25'', ''1000000'', ''150000000'', ''1000'', ''800000'', ''80'']"

definition sampleRow :: row where
  "sampleRow = writeRow requiredColumns sampleRecord"

definition badDateRecord :: "string list" where
  "badDateRecord = sampleRecord[0 := ''22-10-2024'']"

definition badVolumeRecord :: "string list" where
  "badVolumeRecord = sampleRecord[10 := ''x'']"

text \<open>
  The persisted field names of the specification, in the order of the required columns:
  the document of a row holds, under the field name at each position, the row's raw
  value of the required column at that position.
\<close>

definition persistedFields :: "string list" where
  "persistedFields =
     [''date'', ''symbol'', ''series'', ''prev_close'', ''open'', ''high'', ''low'', ''last'',
      ''close'', ''vwap'', ''volume'', ''turnover'', ''trades'', ''deliverable'',
      ''percentage_deliverable'']"

definition specDocument :: "row \<Rightarrow> document" where
  "specDocument r =
     map (\<lambda>(col, field). (field, getField r col)) (zip requiredColumns persistedFields)"

text \<open>A record that ends one cell early, and headers with one padded column name.\<close>

definition shortRecord :: "string list" where
  "shortRecord = butlast sampleRecord"

definition paddedSymbolHeader :: "string list" where
  "paddedSymbolHeader = requiredColumns[1 := '' Symbol'']"

definition paddedDateHeader :: "string list" where
  "paddedDateHeader = requiredColumns[0 := '' Date'']"

text \<open>
  A column is checked on a row when the row is accepted as it is and rejected once the
  value of that column is replaced by a text that is neither a date nor a number.
\<close>

definition rejectedWhenSpoiled :: "row \<Rightarrow> string \<Rightarrow> bool" where
  "rejectedWhenSpoiled r col = (rowIsValid r \<and> \<not> rowIsValid (setProperty col ''x'' r))"

text \<open>A gateway that stores every document it is given.\<close>

definition acceptAll :: "document list \<Rightarrow> string + document list" where
  "acceptAll documents = Inr documents"

section \<open>Properties of the date validator\<close>

lemma matchDigits_SomeD:
  "matchDigits n s = Some (sk, m, r) \<Longrightarrow> s = sk @ m @ r \<and> length m = n \<and> list_all isDigit m"
proof (induction s arbitrary: sk)
  case Nil
  then show ?case by (simp split: if_splits)
next
  case (Cons c cs)
  show ?case
  proof (cases "n \<le> length (c # cs) \<and> list_all isDigit (take n (c # cs))")
    case True
    with Cons.prems show ?thesis by auto
  next
    case False
    with Cons.prems obtain sk' where "matchDigits n cs = Some (sk', m, r)" and "sk = c # sk'"
      by (auto split: if_splits)
    with Cons.IH [of sk'] show ?thesis by simp
  qed
qed

lemma matchLit_SomeD:
  "matchLit l s = Some (sk, m, r) \<Longrightarrow> s = sk @ m @ r \<and> m = [l]"
proof (induction s arbitrary: sk)
  case Nil
  then show ?case by simp
next
  case (Cons c cs)
  show ?case
  proof (cases "c = l")
    case True
    with Cons.prems show ?thesis by auto
  next
    case False
    with Cons.prems obtain sk' where "matchLit l cs = Some (sk', m, r)" and "sk = c # sk'"
      by auto
    with Cons.IH [of sk'] show ?thesis by simp
  qed
qed

lemma matchDigits_prefix:
  "n \<le> length s \<Longrightarrow> list_all isDigit (take n s) \<Longrightarrow> 0 < n \<Longrightarrow>
   matchDigits n s = Some ([], take n s, drop n s)"
  by (cases s) auto

lemma getParseRegexForToken_SomeD:
  assumes "getParseRegexForToken t s = Some (sk, m, r)"
  shows "s = sk @ m @ r"
    and "t = YYYY \<Longrightarrow> length m = 4 \<and> list_all isDigit m"
    and "t = MM \<Longrightarrow> length m = 2 \<and> list_all isDigit m"
    and "t = DD \<Longrightarrow> length m = 2 \<and> list_all isDigit m"
    and "t = Lit l \<Longrightarrow> m = [l]"
  using assms matchDigits_SomeD [of _ s sk m r] matchLit_SomeD [of _ s sk m r]
  by (auto simp: getParseRegexForToken_def split: token.splits)

lemma parseToken_matched:
  assumes "unusedTokens (parseToken c t) = []"
  obtains sk m r where "getParseRegexForToken t (remaining c) = Some (sk, m, r)"
    and "unusedTokens c = []"
    and "parseToken c t = addTimeToArrayFromToken t m
            (c\<lparr>remaining := r,
               totalParsedInputLength := totalParsedInputLength c + length m\<rparr>)"
proof (cases "getParseRegexForToken t (remaining c)")
  case None
  with assms show ?thesis by (simp add: parseToken_def)
next
  case (Some x)
  obtain sk m r where x: "x = (sk, m, r)" by (cases x)
  have "unusedTokens (addTimeToArrayFromToken t m c') = unusedTokens c'" for c'
    by (simp add: addTimeToArrayFromToken_def split: token.splits)
  with assms Some x have "unusedTokens c = []"
    by (simp add: parseToken_def)
  with Some x that show ?thesis
    by (simp add: parseToken_def)
qed

lemma addTime_fields:
  "remaining (addTimeToArrayFromToken t m c) = remaining c"
  "totalParsedInputLength (addTimeToArrayFromToken t m c) = totalParsedInputLength c"
  "aYEAR (addTimeToArrayFromToken t m c) = (if t = YYYY then Some (toInt m) else aYEAR c)"
  "aMONTH (addTimeToArrayFromToken t m c) = (if t = MM then Some (toInt m - 1) else aMONTH c)"
  "aDATE (addTimeToArrayFromToken t m c) = (if t = DD then Some (toInt m) else aDATE c)"
  by (simp_all add: addTimeToArrayFromToken_def split: token.splits)

lemma isLeapYear_leapYear: "isLeapYear y = leapYear y"
proof -
  have "400 dvd y \<Longrightarrow> 4 dvd y"
    using dvd_trans [of 4 400 y] by simp
  then show ?thesis
    unfolding isLeapYear_def leapYear_def mod_eq_0_iff_dvd by blast
qed

lemma months_enum: "set [1..12] = {1, 2, 3, 4, 5, 6, 7, 8, 9, 10, 11, 12 :: int}"
  by code_simp

lemma daysInMonth_monthLength:
  assumes "1 \<le> m" "m \<le> 12"
  shows "daysInMonth y (m - 1) = monthLength y m"
proof -
  from assms have "m \<in> set [1..12]" by simp
  then have "m \<in> {1, 2, 3, 4, 5, 6, 7, 8, 9, 10, 11, 12}"
    by (simp only: months_enum)
  then show ?thesis
    by (auto simp: daysInMonth_def monthLength_def isLeapYear_leapYear)
qed

lemma checkOverflow_calendar:
  "(\<not> checkOverflow y (m - 1) d) = realCalendarDate y m d"
proof (cases "1 \<le> m \<and> m \<le> 12")
  case True
  then show ?thesis
    using daysInMonth_monthLength [of m y]
    by (auto simp: checkOverflow_def realCalendarDate_def)
next
  case False
  then show ?thesis
    by (auto simp: checkOverflow_def realCalendarDate_def)
qed

lemma isoDate_sound:
  assumes "momentIsValid s"
  shows "specValidDate s"
proof -
  define c0 where "c0 = \<lparr>remaining = s, totalParsedInputLength = 0, unusedTokens = [],
        aYEAR = None, aMONTH = None, aDATE = None\<rparr>"
  define c1 where "c1 = parseToken c0 YYYY"
  define c2 where "c2 = parseToken c1 (Lit CHR ''-'')"
  define c3 where "c3 = parseToken c2 MM"
  define c4 where "c4 = parseToken c3 (Lit CHR ''-'')"
  define c5 where "c5 = parseToken c4 DD"
  have c5: "configFromStringAndFormat s = c5"
    by (simp add: configFromStringAndFormat_def formatTokens_def c0_def c1_def c2_def c3_def
        c4_def c5_def)
  from assms have u5: "unusedTokens c5 = []"
    and len: "totalParsedInputLength c5 = length s"
    and ov: "(case (aYEAR c5, aMONTH c5, aDATE c5) of
            (Some y, Some m, Some d) \<Rightarrow> \<not> checkOverflow y m d | _ \<Rightarrow> False)"
    by (simp_all add: momentIsValid_def c5 Let_def)
  from u5 obtain sk5 m5 r5 where
    g5: "getParseRegexForToken DD (remaining c4) = Some (sk5, m5, r5)"
    and u4: "unusedTokens c4 = []"
    and e5: "c5 = addTimeToArrayFromToken DD m5 (c4\<lparr>remaining := r5,
               totalParsedInputLength := totalParsedInputLength c4 + length m5\<rparr>)"
    unfolding c5_def by (rule parseToken_matched)
  from u4 obtain sk4 m4 r4 where
    g4: "getParseRegexForToken (Lit CHR ''-'') (remaining c3) = Some (sk4, m4, r4)"
    and u3: "unusedTokens c3 = []"
    and e4: "c4 = addTimeToArrayFromToken (Lit CHR ''-'') m4 (c3\<lparr>remaining := r4,
               totalParsedInputLength := totalParsedInputLength c3 + length m4\<rparr>)"
    unfolding c4_def by (rule parseToken_matched)
  from u3 obtain sk3 m3 r3 where
    g3: "getParseRegexForToken MM (remaining c2) = Some (sk3, m3, r3)"
    and u2: "unusedTokens c2 = []"
    and e3: "c3 = addTimeToArrayFromToken MM m3 (c2\<lparr>remaining := r3,
               totalParsedInputLength := totalParsedInputLength c2 + length m3\<rparr>)"
    unfolding c3_def by (rule parseToken_matched)
  from u2 obtain sk2 m2 r2 where
    g2: "getParseRegexForToken (Lit CHR ''-'') (remaining c1) = Some (sk2, m2, r2)"
    and u1: "unusedTokens c1 = []"
    and e2: "c2 = addTimeToArrayFromToken (Lit CHR ''-'') m2 (c1\<lparr>remaining := r2,
               totalParsedInputLength := totalParsedInputLength c1 + length m2\<rparr>)"
    unfolding c2_def by (rule parseToken_matched)
  from u1 obtain sk1 m1 r1 where
    g1: "getParseRegexForToken YYYY (remaining c0) = Some (sk1, m1, r1)"
    and e1: "c1 = addTimeToArrayFromToken YYYY m1 (c0\<lparr>remaining := r1,
               totalParsedInputLength := totalParsedInputLength c0 + length m1\<rparr>)"
    unfolding c1_def by (rule parseToken_matched)
  note d1 = getParseRegexForToken_SomeD [OF g1]
  note d2 = getParseRegexForToken_SomeD [OF g2]
  note d3 = getParseRegexForToken_SomeD [OF g3]
  note d4 = getParseRegexForToken_SomeD [OF g4]
  note d5 = getParseRegexForToken_SomeD [OF g5]
  have m1: "length m1 = 4" "list_all isDigit m1" using d1(2) by simp_all
  have m2: "m2 = ''-''" using d2(5) by simp
  have m3: "length m3 = 2" "list_all isDigit m3" using d3(3) by simp_all
  have m4: "m4 = ''-''" using d4(5) by simp
  have m5: "length m5 = 2" "list_all isDigit m5" using d5(4) by simp_all
  have rem: "remaining c1 = r1" "remaining c2 = r2" "remaining c3 = r3" "remaining c4 = r4"
    by (simp_all add: e1 e2 e3 e4 addTime_fields)
  have s0: "s = sk1 @ m1 @ r1" using d1(1) by (simp add: c0_def)
  have s1: "r1 = sk2 @ m2 @ r2" using d2(1) by (simp add: rem)
  have s2: "r2 = sk3 @ m3 @ r3" using d3(1) by (simp add: rem)
  have s3: "r3 = sk4 @ m4 @ r4" using d4(1) by (simp add: rem)
  have s4: "r4 = sk5 @ m5 @ r5" using d5(1) by (simp add: rem)
  have t1: "totalParsedInputLength c1 = 4" by (simp add: e1 addTime_fields m1 c0_def)
  have t2: "totalParsedInputLength c2 = 5" by (simp add: e2 addTime_fields m2 t1)
  have t3: "totalParsedInputLength c3 = 7" by (simp add: e3 addTime_fields m3 t2)
  have t4: "totalParsedInputLength c4 = 8" by (simp add: e4 addTime_fields m4 t3)
  have t5: "totalParsedInputLength c5 = 10" by (simp add: e5 addTime_fields m5 t4)
  have "length s = length sk1 + length sk2 + length sk3 + length sk4 + length sk5
      + length r5 + 10"
    by (simp add: s0 s1 s2 s3 s4 m1 m2 m3 m4 m5)
  with len t5 have "length sk1 = 0" "length sk2 = 0" "length sk3 = 0" "length sk4 = 0"
    "length sk5 = 0" "length r5 = 0"
    by simp_all
  then have s': "s = m1 @ CHR ''-'' # m3 @ CHR ''-'' # m5"
    by (simp add: s0 s1 s2 s3 s4 m2 m4)
  have y: "aYEAR c5 = Some (toInt m1)"
    by (simp add: e5 e4 e3 e2 e1 addTime_fields)
  have m: "aMONTH c5 = Some (toInt m3 - 1)"
    by (simp add: e5 e4 e3 addTime_fields)
  have d: "aDATE c5 = Some (toInt m5)"
    by (simp add: e5 addTime_fields)
  from ov y m d have "\<not> checkOverflow (toInt m1) (toInt m3 - 1) (toInt m5)"
    by simp
  then have cal: "realCalendarDate (toInt m1) (toInt m3) (toInt m5)"
    by (simp add: checkOverflow_calendar)
  from s' m1 m3 m5 cal show ?thesis
    by (simp add: specValidDate_def isoDateShape_def nth_append)
qed

lemma config_iso:
  assumes "length m1 = 4" "list_all isDigit m1" "length m3 = 2" "list_all isDigit m3"
    "length m5 = 2" "list_all isDigit m5"
  shows "configFromStringAndFormat (m1 @ CHR ''-'' # m3 @ CHR ''-'' # m5) =
     \<lparr>remaining = [], totalParsedInputLength = 10, unusedTokens = [],
      aYEAR = Some (toInt m1), aMONTH = Some (toInt m3 - 1),
      aDATE = Some (toInt m5)\<rparr>"
proof -
  have a: "matchDigits 4 (m1 @ r) = Some ([], m1, r)" for r
    using assms(1,2) matchDigits_prefix [of 4 "m1 @ r"] by simp
  have b: "matchDigits 2 (m3 @ r) = Some ([], m3, r)" for r
    using assms(3,4) matchDigits_prefix [of 2 "m3 @ r"] by simp
  have c: "matchDigits 2 m5 = Some ([], m5, [])"
    using assms(5,6) matchDigits_prefix [of 2 m5] by simp
  show ?thesis
    by (simp add: configFromStringAndFormat_def formatTokens_def parseToken_def
        getParseRegexForToken_def addTimeToArrayFromToken_def a b c assms)
qed

lemma isoDateShape_split:
  assumes "isoDateShape s"
  shows "s = take 4 s @ CHR ''-'' # take 2 (drop 5 s) @ CHR ''-'' # drop 8 s"
proof -
  from assms have l: "length s = 10" and d1: "s ! 4 = CHR ''-''" and d2: "s ! 7 = CHR ''-''"
    by (simp_all add: isoDateShape_def)
  from l obtain a b c d e f g h i j where "s = [a, b, c, d, e, f, g, h, i, j]"
    by (auto simp: eval_nat_numeral length_Suc_conv)
  with d1 d2 show ?thesis by simp
qed

lemma isoDate_complete:
  assumes "specValidDate s"
  shows "momentIsValid s"
proof -
  define m1 where "m1 = take 4 s"
  define m3 where "m3 = take 2 (drop 5 s)"
  define m5 where "m5 = drop 8 s"
  from assms have sh: "isoDateShape s" and cal: "realCalendarDate (toInt m1) (toInt m3) (toInt m5)"
    by (simp_all add: specValidDate_def m1_def m3_def m5_def)
  from sh have l: "length m1 = 4" "list_all isDigit m1" "length m3 = 2" "list_all isDigit m3"
    "length m5 = 2" "list_all isDigit m5"
    by (simp_all add: isoDateShape_def m1_def m3_def m5_def)
  have s: "s = m1 @ CHR ''-'' # m3 @ CHR ''-'' # m5"
    unfolding m1_def m3_def m5_def by (rule isoDateShape_split [OF sh])
  have len: "length s = 10" using sh by (simp add: isoDateShape_def)
  from cal have "\<not> checkOverflow (toInt m1) (toInt m3 - 1) (toInt m5)"
    by (simp add: checkOverflow_calendar)
  then show ?thesis
    unfolding momentIsValid_def
    by (subst s, subst s, simp only: config_iso [OF l]) (simp add: l)
qed

section \<open>Properties of the validation pipeline\<close>

lemma foldl_flag:
  "foldl (\<lambda>isValid field. if \<not> P field then False else isValid) b xs = (b \<and> list_all P xs)"
  by (induction xs arbitrary: b) auto

lemma rowIsValid_iff:
  "rowIsValid r = (isValidDate (getField r ''Date'') \<and> list_all isNumeric (numericFields r))"
  by (simp add: rowIsValid_def foldl_flag)

lemma foldl_insert_trim:
  "foldl (\<lambda>S header. insert (trim header) S) S0 headers = S0 \<union> trim ` set headers"
  by (induction headers arbitrary: S0) auto

lemma onData_fields:
  "callbacks (onData r st) = callbacks st"
  "headersSet (onData r st) = headersSet st"
  "validRows (onData r st) = validRows st @ filter rowIsValid [r]"
  "invalidRows (onData r st) = invalidRows st @ filter (\<lambda>r. \<not> rowIsValid r) [r]"
  "successfulRecords (onData r st) = successfulRecords st + length (filter rowIsValid [r])"
  "failedRecords (onData r st) = failedRecords st + length (filter (\<lambda>r. \<not> rowIsValid r) [r])"
  by (simp_all add: onData_def)

lemma data_events_fields:
  "callbacks (foldl handle st (map Data rows)) = callbacks st"
  "headersSet (foldl handle st (map Data rows)) = headersSet st"
  "validRows (foldl handle st (map Data rows)) = validRows st @ filter rowIsValid rows"
  "invalidRows (foldl handle st (map Data rows)) =
     invalidRows st @ filter (\<lambda>r. \<not> rowIsValid r) rows"
  "successfulRecords (foldl handle st (map Data rows)) =
     successfulRecords st + length (filter rowIsValid rows)"
  "failedRecords (foldl handle st (map Data rows)) =
     failedRecords st + length (filter (\<lambda>r. \<not> rowIsValid r) rows)"
  by (induction rows arbitrary: st) (simp_all add: handle_def onData_fields)

text \<open>The columns the header gate reports for a header.\<close>

lemma onHeaders_initial:
  "onHeaders headers initial =
     initial\<lparr>headersSet := trim ` set headers,
       callbacks :=
         (if filter (\<lambda>col. col \<notin> trim ` set headers) requiredColumns = [] then []
          else [MissingColumns (filter (\<lambda>col. col \<notin> trim ` set headers) requiredColumns)])\<rparr>"
  by (simp add: onHeaders_def initial_def foldl_insert_trim Let_def)

lemma run_records:
  "run (csvParser (headers # records) None) =
     onEnd (foldl handle (onHeaders headers initial) (map Data (map (writeRow headers) records)))"
  by (simp add: run_def csvParser_def handle_def comp_def)

lemma validate_records:
  "validateCSVContent (headers # records) None =
     (if filter (\<lambda>col. col \<notin> trim ` set headers) requiredColumns = [] then []
      else [MissingColumns (filter (\<lambda>col. col \<notin> trim ` set headers) requiredColumns)])
     @ [Completed
         \<lparr>validRows = filter rowIsValid (map (writeRow headers) records),
          invalidRows = filter (\<lambda>r. \<not> rowIsValid r) (map (writeRow headers) records),
          successfulRecords = length (filter rowIsValid (map (writeRow headers) records)),
          failedRecords = length (filter (\<lambda>r. \<not> rowIsValid r) (map (writeRow headers) records)),
          totalRecords = length (filter rowIsValid (map (writeRow headers) records))
            + length (filter (\<lambda>r. \<not> rowIsValid r) (map (writeRow headers) records))\<rparr>]"
proof -
  define rows where "rows = map (writeRow headers) records"
  define st0 where "st0 = onHeaders headers initial"
  define st where "st = foldl handle st0 (map Data rows)"
  have v: "validateCSVContent (headers # records) None = callbacks (onEnd st)"
    by (simp only: validateCSVContent_def run_records st_def st0_def rows_def)
  have h: "callbacks st0 =
      (if filter (\<lambda>col. col \<notin> trim ` set headers) requiredColumns = [] then []
       else [MissingColumns (filter (\<lambda>col. col \<notin> trim ` set headers) requiredColumns)])"
    "validRows st0 = []" "invalidRows st0 = []" "successfulRecords st0 = 0"
    "failedRecords st0 = 0"
    by (simp_all add: st0_def onHeaders_initial) (simp_all add: initial_def)
  have f: "callbacks st = callbacks st0" "validRows st = filter rowIsValid rows"
    "invalidRows st = filter (\<lambda>r. \<not> rowIsValid r) rows"
    "successfulRecords st = length (filter rowIsValid rows)"
    "failedRecords st = length (filter (\<lambda>r. \<not> rowIsValid r) rows)"
    by (simp_all add: st_def data_events_fields h)
  show ?thesis
    unfolding v rows_def [symmetric]
    by (simp add: onEnd_def f h)
qed

lemma length_filter_partition:
  "length (filter P xs) + length (filter (\<lambda>x. \<not> P x) xs) = length xs"
  by (induction xs) auto

section \<open>Columns and sample inputs\<close>

lemma numericColumns_eq:
  "numericColumns = [''Prev Close'', ''Open'', ''High'', ''Low'', ''Last'', ''Close'', ''VWAP'',
     ''Volume'', ''Turnover'', ''Trades'', ''Deliverable Volume'', ''%Deliverble'']"
  by (simp add: numericColumns_def requiredColumns_def)

lemma numericFields_map: "numericFields r = map (getField r) numericColumns"
  by (simp add: numericFields_def numericColumns_eq)

lemma rowIsValid_columns:
  "rowIsValid r =
     (isValidDate (getField r ''Date'') \<and> list_all (\<lambda>col. isNumeric (getField r col)) numericColumns)"
  by (simp add: rowIsValid_iff numericFields_map list_all_iff)

lemma sample_values:
  "isValidDate (Some ''2024-10-22'')" "\<not> isValidDate (Some ''22-10-2024'')"
  "\<not> isValidDate None" "\<not> isNumeric None" "\<not> isNumeric (Some ''x'')"
  "isNumeric (Some ''150'')" "isNumeric (Some ''152'')" "isNumeric (Some ''153'')"
  "isNumeric (Some ''149'')" "isNumeric (Some ''151'')" "isNumeric (Some ''150.5'')"
  "isNumeric (Some ''151.25'')" "isNumeric (Some ''1000000'')"
  "isNumeric (Some ''150000000'')" "isNumeric (Some ''1000'')" "isNumeric (Some ''800000'')"
  "isNumeric (Some ''80'')"
  by code_simp+

lemma sampleRow_eq:
  "sampleRow =
     [(''Date'', ''2024-10-22''), (''Symbol'', ''AAPL''), (''Series'', ''EQ''),
      (''Prev Close'', ''150''), (''Open'', ''152''), (''High'', ''153''), (''Low'', ''149''),
      (''Last'', ''151''), (''Close'', ''150.5''), (''VWAP'', ''151.25''),
      (''Volume'', ''1000000''), (''Turnover'', ''150000000''), (''Trades'', ''1000''),
      (''Deliverable Volume'', ''800000''), (''%Deliverble'', ''80'')]"
  by (simp add: sampleRow_def writeRow_def requiredColumns_def sampleRecord_def setProperty_def
      enumerate_eq_zip upt_rec)

lemma badDateRow_eq:
  "writeRow requiredColumns badDateRecord =
     [(''Date'', ''22-10-2024''), (''Symbol'', ''AAPL''), (''Series'', ''EQ''),
      (''Prev Close'', ''150''), (''Open'', ''152''), (''High'', ''153''), (''Low'', ''149''),
      (''Last'', ''151''), (''Close'', ''150.5''), (''VWAP'', ''151.25''),
      (''Volume'', ''1000000''), (''Turnover'', ''150000000''), (''Trades'', ''1000''),
      (''Deliverable Volume'', ''800000''), (''%Deliverble'', ''80'')]"
  by (simp add: writeRow_def requiredColumns_def badDateRecord_def sampleRecord_def
      setProperty_def enumerate_eq_zip upt_rec)

lemma badVolumeRow_eq:
  "writeRow requiredColumns badVolumeRecord =
     [(''Date'', ''2024-10-22''), (''Symbol'', ''AAPL''), (''Series'', ''EQ''),
      (''Prev Close'', ''150''), (''Open'', ''152''), (''High'', ''153''), (''Low'', ''149''),
      (''Last'', ''151''), (''Close'', ''150.5''), (''VWAP'', ''151.25''),
      (''Volume'', ''x''), (''Turnover'', ''150000000''), (''Trades'', ''1000''),
      (''Deliverable Volume'', ''800000''), (''%Deliverble'', ''80'')]"
  by (simp add: writeRow_def requiredColumns_def badVolumeRecord_def sampleRecord_def
      setProperty_def enumerate_eq_zip upt_rec)

lemma badVolumeRow_invalid: "\<not> rowIsValid (writeRow requiredColumns badVolumeRecord)"
  by (simp add: rowIsValid_columns numericColumns_eq badVolumeRow_eq getField_def sample_values)

lemma sampleRow_valid: "rowIsValid sampleRow"
  by (simp add: rowIsValid_columns numericColumns_eq sampleRow_eq getField_def sample_values)

lemma badDateRow_invalid: "\<not> rowIsValid (writeRow requiredColumns badDateRecord)"
  by (simp add: rowIsValid_columns badDateRow_eq getField_def sample_values)

lemma required_trimmed: "set requiredColumns \<subseteq> trim ` set requiredColumns"
  by code_simp

lemma accepted_header:
  "set requiredColumns \<subseteq> trim ` set headers \<Longrightarrow>
   filter (\<lambda>col. col \<notin> trim ` set headers) requiredColumns = []"
  by (auto simp: filter_empty_conv)

lemma validate_accepted:
  assumes "set requiredColumns \<subseteq> trim ` set headers"
  shows "validateCSVContent (headers # records) None =
     [Completed
         \<lparr>validRows = filter rowIsValid (map (writeRow headers) records),
          invalidRows = filter (\<lambda>r. \<not> rowIsValid r) (map (writeRow headers) records),
          successfulRecords = length (filter rowIsValid (map (writeRow headers) records)),
          failedRecords = length (filter (\<lambda>r. \<not> rowIsValid r) (map (writeRow headers) records)),
          totalRecords = length (filter rowIsValid (map (writeRow headers) records))
            + length (filter (\<lambda>r. \<not> rowIsValid r) (map (writeRow headers) records))\<rparr>]"
  by (simp add: validate_records accepted_header [OF assms])

section \<open>The terminal summary\<close>

text \<open>
  C3: when the trimmed header holds every required column and the stream ends without
  error, the callback receives exactly one result; it has \<open>success: true\<close>, its total
  is the sum of the two counters and the number of data records, and each counter is the
  length of its row sequence.
\<close>

theorem summary_counts:
  assumes "set requiredColumns \<subseteq> trim ` set headers"
  shows "\<exists>s. validateCSVContent (headers # records) None = [Completed s] \<and>
           success (Completed s) \<and>
           totalRecords s = successfulRecords s + failedRecords s \<and>
           totalRecords s = length records \<and>
           successfulRecords s = length (validRows s) \<and>
           failedRecords s = length (invalidRows s)"
proof -
  define rows where "rows = map (writeRow headers) records"
  define s where "s =
     \<lparr>validRows = filter rowIsValid rows,
      invalidRows = filter (\<lambda>r. \<not> rowIsValid r) rows,
      successfulRecords = length (filter rowIsValid rows),
      failedRecords = length (filter (\<lambda>r. \<not> rowIsValid r) rows),
      totalRecords = length (filter rowIsValid rows)
        + length (filter (\<lambda>r. \<not> rowIsValid r) rows)\<rparr>"
  have 1: "validateCSVContent (headers # records) None = [Completed s]"
    unfolding s_def rows_def by (rule validate_accepted [OF assms])
  have 2: "totalRecords s = length records"
    using length_filter_partition [of rowIsValid rows] by (simp add: s_def rows_def)
  have 3: "totalRecords s = successfulRecords s + failedRecords s"
    "successfulRecords s = length (validRows s)" "failedRecords s = length (invalidRows s)"
    by (simp_all add: s_def)
  have 4: "success (Completed s)" by (simp add: success_def)
  from 1 2 3 4 show ?thesis by blast
qed

theorem summary_counts_witness:
  "set requiredColumns \<subseteq> trim ` set requiredColumns \<and>
   (\<exists>s. validateCSVContent [requiredColumns, sampleRecord, badDateRecord] None = [Completed s] \<and>
        success (Completed s) \<and>
        totalRecords s = successfulRecords s + failedRecords s \<and>
        totalRecords s = 2 \<and>
        successfulRecords s = length (validRows s) \<and>
        failedRecords s = length (invalidRows s))"
  using summary_counts [OF required_trimmed, of "[sampleRecord, badDateRecord]"] required_trimmed
  by (simp add: numeral_2_eq_2)

section \<open>Classification of the rows\<close>

text \<open>
  C4: after an accepted header every data row is appended to \<open>validRows\<close> exactly when
  its \<open>Date\<close> passes the date validator and its value of every numeric column (each
  required column other than \<open>Date\<close>, \<open>Symbol\<close> and \<open>Series\<close>) passes the
  numeric validator, and to \<open>invalidRows\<close> otherwise: the two sequences are the rows
  that pass and the rows that fail, so no row is in both or lost, and rows after a failing
  row are still classified.
\<close>

theorem row_classification:
  assumes "set requiredColumns \<subseteq> trim ` set headers"
  shows "\<exists>s. validateCSVContent (headers # records) None = [Completed s] \<and>
           validRows s =
             filter (\<lambda>r. isValidDate (getField r ''Date'') \<and>
                       list_all (\<lambda>col. isNumeric (getField r col)) numericColumns)
               (map (writeRow headers) records) \<and>
           invalidRows s =
             filter (\<lambda>r. \<not> (isValidDate (getField r ''Date'') \<and>
                       list_all (\<lambda>col. isNumeric (getField r col)) numericColumns))
               (map (writeRow headers) records)"
  unfolding rowIsValid_columns [symmetric]
  by (simp add: validate_accepted [OF assms])

theorem row_classification_witness:
  "set requiredColumns \<subseteq> trim ` set requiredColumns \<and>
   (\<exists>s. validateCSVContent
          [requiredColumns, badDateRecord, sampleRecord, badVolumeRecord] None = [Completed s] \<and>
        validRows s = [sampleRow] \<and>
        invalidRows s =
          [writeRow requiredColumns badDateRecord, writeRow requiredColumns badVolumeRecord])"
  using row_classification [OF required_trimmed, of "[badDateRecord, sampleRecord, badVolumeRecord]"]
    required_trimmed sampleRow_valid badDateRow_invalid badVolumeRow_invalid
  unfolding rowIsValid_columns [symmetric]
  by (simp add: sampleRow_def)

section \<open>Order of the classified rows\<close>

lemma filter_by_index:
  "map ((!) xs) (filter (\<lambda>i. P (xs ! i)) [0..<length xs]) = filter P xs"
proof (induction xs rule: rev_induct)
  case Nil
  show ?case by simp
next
  case (snoc x xs)
  have "filter (\<lambda>i. P ((xs @ [x]) ! i)) [0..<length xs] = filter (\<lambda>i. P (xs ! i)) [0..<length xs]"
    by (rule filter_cong) (simp_all add: nth_append)
  moreover have "map ((!) (xs @ [x])) (filter (\<lambda>i. P (xs ! i)) [0..<length xs])
      = map ((!) xs) (filter (\<lambda>i. P (xs ! i)) [0..<length xs])"
    by (rule map_cong) (simp_all add: nth_append)
  ultimately show ?case using snoc.IH by simp
qed

lemma filter_Nil_complement:
  "filter (\<lambda>y. \<not> Q y) ys = [] \<Longrightarrow> filter Q ys = ys"
  by (induction ys) (auto split: if_splits)

lemma filter_Nil_complement':
  "filter Q ys = [] \<Longrightarrow> filter (\<lambda>y. \<not> Q y) ys = ys"
  by (induction ys) (auto split: if_splits)

lemma mergeByIndex_partition:
  "sorted_wrt (<) (map fst ys) \<Longrightarrow>
   mergeByIndex (filter Q ys) (filter (\<lambda>y. \<not> Q y) ys) = ys"
proof (induction ys)
  case Nil
  show ?case by simp
next
  case (Cons y ys)
  then have less: "\<And>z. z \<in> set ys \<Longrightarrow> fst y < fst z"
    and IH: "mergeByIndex (filter Q ys) (filter (\<lambda>y. \<not> Q y) ys) = ys"
    by auto
  show ?case
  proof (cases "Q y")
    case True
    show ?thesis
    proof (cases "filter (\<lambda>y. \<not> Q y) ys")
      case Nil
      with True filter_Nil_complement [OF Nil] show ?thesis by simp
    next
      case (Cons b B)
      then have "b \<in> set (filter (\<lambda>y. \<not> Q y) ys)" by simp
      then have "b \<in> set ys" by simp
      with less have "fst y < fst b" by simp
      with True Cons IH show ?thesis by simp
    qed
  next
    case False
    show ?thesis
    proof (cases "filter Q ys")
      case Nil
      with False filter_Nil_complement' [OF Nil] show ?thesis by simp
    next
      case (Cons a A)
      then have "a \<in> set (filter Q ys)" by simp
      then have "a \<in> set ys" by simp
      with less have "\<not> fst a < fst y" by fastforce
      with False Cons IH show ?thesis by simp
    qed
  qed
qed

lemma merge_original_indices:
  "map snd (mergeByIndex
      (zip (originalIndices P rows) (filter P rows))
      (zip (originalIndices (\<lambda>r. \<not> P r) rows) (filter (\<lambda>r. \<not> P r) rows))) = rows"
proof -
  define tagged where "tagged = map (\<lambda>i. (i, rows ! i)) [0..<length rows]"
  have z: "zip (originalIndices R rows) (filter R rows) = filter (\<lambda>(i, r). R r) tagged" for R
  proof -
    have "zip (originalIndices R rows) (filter R rows)
        = zip (originalIndices R rows) (map ((!) rows) (originalIndices R rows))"
      by (simp only: originalIndices_def filter_by_index)
    also have "\<dots> = map (\<lambda>i. (i, rows ! i)) (originalIndices R rows)"
      by (simp add: zip_map2 zip_same_conv_map)
    also have "\<dots> = filter (\<lambda>(i, r). R r) tagged"
      by (simp add: originalIndices_def tagged_def filter_map comp_def)
    finally show ?thesis .
  qed
  have n: "filter (\<lambda>(i, r). \<not> P r) tagged = filter (\<lambda>y. \<not> (case y of (i, r) \<Rightarrow> P r)) tagged"
    by (rule filter_cong) auto
  have "map fst tagged = [0..<length rows]"
    by (simp add: tagged_def comp_def)
  then have "sorted_wrt (<) (map fst tagged)" by simp
  then have "mergeByIndex (filter (\<lambda>(i, r). P r) tagged) (filter (\<lambda>(i, r). \<not> P r) tagged) = tagged"
    unfolding n by (rule mergeByIndex_partition)
  moreover have "map snd tagged = rows"
    by (simp add: tagged_def comp_def map_nth)
  ultimately show ?thesis by (simp add: z)
qed

lemma originalIndices_sorted: "sorted_wrt (<) (originalIndices P rows)"
  by (simp add: originalIndices_def sorted_wrt_filter)

text \<open>
  C5: for an accepted header, \<open>validRows\<close> and \<open>invalidRows\<close> are the input rows at
  the increasing original indices of the accepted and of the rejected rows, and merging
  the two sequences by original index gives back the sequence of data rows.
\<close>

theorem stable_partition:
  assumes "set requiredColumns \<subseteq> trim ` set headers"
  shows "\<exists>s. validateCSVContent (headers # records) None = [Completed s] \<and>
           validRows s =
             map ((!) (map (writeRow headers) records))
               (originalIndices rowIsValid (map (writeRow headers) records)) \<and>
           invalidRows s =
             map ((!) (map (writeRow headers) records))
               (originalIndices (\<lambda>r. \<not> rowIsValid r) (map (writeRow headers) records)) \<and>
           sorted_wrt (<) (originalIndices rowIsValid (map (writeRow headers) records)) \<and>
           sorted_wrt (<) (originalIndices (\<lambda>r. \<not> rowIsValid r) (map (writeRow headers) records)) \<and>
           map snd (mergeByIndex
             (zip (originalIndices rowIsValid (map (writeRow headers) records)) (validRows s))
             (zip (originalIndices (\<lambda>r. \<not> rowIsValid r) (map (writeRow headers) records))
                (invalidRows s)))
           = map (writeRow headers) records"
proof -
  define rows where "rows = map (writeRow headers) records"
  define s where "s =
     \<lparr>validRows = filter rowIsValid rows,
      invalidRows = filter (\<lambda>r. \<not> rowIsValid r) rows,
      successfulRecords = length (filter rowIsValid rows),
      failedRecords = length (filter (\<lambda>r. \<not> rowIsValid r) rows),
      totalRecords = length (filter rowIsValid rows)
        + length (filter (\<lambda>r. \<not> rowIsValid r) rows)\<rparr>"
  have 1: "validateCSVContent (headers # records) None = [Completed s]"
    unfolding s_def rows_def by (rule validate_accepted [OF assms])
  have v: "validRows s = filter rowIsValid rows"
    and i: "invalidRows s = filter (\<lambda>r. \<not> rowIsValid r) rows"
    by (simp_all add: s_def)
  have 2: "validRows s = map ((!) rows) (originalIndices rowIsValid rows)"
    unfolding v originalIndices_def by (rule filter_by_index [symmetric])
  have 3: "invalidRows s = map ((!) rows) (originalIndices (\<lambda>r. \<not> rowIsValid r) rows)"
    unfolding i originalIndices_def by (rule filter_by_index [symmetric])
  have 4: "map snd (mergeByIndex (zip (originalIndices rowIsValid rows) (validRows s))
             (zip (originalIndices (\<lambda>r. \<not> rowIsValid r) rows) (invalidRows s))) = rows"
    unfolding v i by (rule merge_original_indices)
  from 1 2 3 4 originalIndices_sorted [of rowIsValid rows]
    originalIndices_sorted [of "\<lambda>r. \<not> rowIsValid r" rows]
  show ?thesis unfolding rows_def by blast
qed

theorem stable_partition_witness:
  "set requiredColumns \<subseteq> trim ` set requiredColumns \<and>
   (\<exists>s. validateCSVContent [requiredColumns, badDateRecord, sampleRecord, badDateRecord] None
          = [Completed s] \<and>
        validRows s = [sampleRow] \<and>
        invalidRows s = [writeRow requiredColumns badDateRecord, writeRow requiredColumns badDateRecord] \<and>
        map snd (mergeByIndex (zip [1] (validRows s)) (zip [0, 2] (invalidRows s)))
          = [writeRow requiredColumns badDateRecord, sampleRow,
             writeRow requiredColumns badDateRecord])"
proof -
  let ?rows = "[writeRow requiredColumns badDateRecord, sampleRow,
             writeRow requiredColumns badDateRecord]"
  have a: "originalIndices rowIsValid ?rows = [1]"
    and b: "originalIndices (\<lambda>r. \<not> rowIsValid r) ?rows = [0, 2]"
    using sampleRow_valid badDateRow_invalid
    by (simp_all add: originalIndices_def upt_rec)
  from stable_partition [OF required_trimmed, of "[badDateRecord, sampleRecord, badDateRecord]"]
  show ?thesis
    using required_trimmed
    unfolding list.map sampleRow_def [symmetric] a b
    by (simp add: sampleRow_def)
qed

section \<open>Absent fields\<close>

lemma isValidDate_undefined: "\<not> isValidDate None"
  by (rule sample_values)

lemma isNumeric_undefined: "\<not> isNumeric None"
  by (rule sample_values)

lemma absent_column_invalid:
  assumes "col \<in> set (''Date'' # numericColumns)" and "getField r col = None"
  shows "\<not> rowIsValid r"
proof (cases "col = ''Date''")
  case True
  with assms(2) show ?thesis
    by (simp add: rowIsValid_columns isValidDate_undefined)
next
  case False
  with assms(1) have "col \<in> set numericColumns" by simp
  with assms(2) isNumeric_undefined have "\<not> list_all (\<lambda>col. isNumeric (getField r col)) numericColumns"
    unfolding list_all_iff by force
  then show ?thesis by (simp add: rowIsValid_columns)
qed

text \<open>
  C8: when the lookup of a validated column yields no value, both validators answer
  false on the missing value, the row is counted and stored as invalid, and the
  remaining events are handled from the state so reached.
\<close>

theorem absent_field_rejects_row:
  assumes "col \<in> set (''Date'' # numericColumns)" and "getField r col = None"
  shows "\<not> isValidDate None \<and> \<not> isNumeric None \<and> \<not> rowIsValid r \<and>
         onData r st =
           st\<lparr>failedRecords := failedRecords st + 1, invalidRows := invalidRows st @ [r]\<rparr> \<and>
         foldl handle st (Data r # events) =
           foldl handle
             (st\<lparr>failedRecords := failedRecords st + 1, invalidRows := invalidRows st @ [r]\<rparr>)
             events"
  using absent_column_invalid [OF assms]
  by (simp add: isValidDate_undefined isNumeric_undefined onData_def handle_def)

lemma shortRow_eq:
  "writeRow requiredColumns shortRecord =
     [(''Date'', ''2024-10-22''), (''Symbol'', ''AAPL''), (''Series'', ''EQ''),
      (''Prev Close'', ''150''), (''Open'', ''152''), (''High'', ''153''), (''Low'', ''149''),
      (''Last'', ''151''), (''Close'', ''150.5''), (''VWAP'', ''151.25''),
      (''Volume'', ''1000000''), (''Turnover'', ''150000000''), (''Trades'', ''1000''),
      (''Deliverable Volume'', ''800000'')]"
  by (simp add: writeRow_def requiredColumns_def shortRecord_def sampleRecord_def setProperty_def
      enumerate_eq_zip upt_rec)

theorem absent_field_rejects_row_witness:
  "''%Deliverble'' \<in> set (''Date'' # numericColumns) \<and>
   getField (writeRow requiredColumns shortRecord) ''%Deliverble'' = None \<and>
   \<not> rowIsValid (writeRow requiredColumns shortRecord) \<and>
   onData (writeRow requiredColumns shortRecord) initial =
     initial\<lparr>failedRecords := 1, invalidRows := [writeRow requiredColumns shortRecord]\<rparr>"
proof -
  have a: "''%Deliverble'' \<in> set (''Date'' # numericColumns)"
    by (simp add: numericColumns_eq)
  have b: "getField (writeRow requiredColumns shortRecord) ''%Deliverble'' = None"
    by (simp add: shortRow_eq getField_def)
  from absent_field_rejects_row [OF a b, of initial] a b show ?thesis
    by (simp add: initial_def)
qed

section \<open>The fields a row is tested on\<close>

lemma getField_setProperty_other:
  "key \<noteq> col \<Longrightarrow> getField (setProperty col v r) key = getField r key"
  by (simp add: getField_def setProperty_def update_conv')

lemma getField_setProperty:
  "col \<noteq> ''__proto__'' \<Longrightarrow>
   getField (setProperty col v r) key = (if key = col then Some v else getField r key)"
  by (simp add: getField_def setProperty_def update_conv')

lemma spoiled_row:
  assumes "col \<noteq> ''__proto__''"
  shows "rejectedWhenSpoiled sampleRow col = (col \<in> set (''Date'' # numericColumns))"
proof (cases "col \<in> set (''Date'' # numericColumns)")
  case True
  have "getField (setProperty col ''x'' sampleRow) col = Some ''x''"
    by (simp add: getField_setProperty [OF assms])
  then have "\<not> isValidDate (getField (setProperty col ''x'' sampleRow) col)"
    "\<not> isNumeric (getField (setProperty col ''x'' sampleRow) col)"
    by (simp_all add: sample_values) code_simp
  with True have "\<not> rowIsValid (setProperty col ''x'' sampleRow)"
    unfolding rowIsValid_columns list_all_iff by auto
  with True sampleRow_valid show ?thesis by (simp add: rejectedWhenSpoiled_def)
next
  case False
  then have "getField (setProperty col ''x'' sampleRow) ''Date'' = getField sampleRow ''Date''"
    and "list_all (\<lambda>c. getField (setProperty col ''x'' sampleRow) c = getField sampleRow c)
      numericColumns"
    unfolding list_all_iff by (auto intro!: getField_setProperty_other)
  then have "rowIsValid (setProperty col ''x'' sampleRow) = rowIsValid sampleRow"
    unfolding rowIsValid_columns list_all_iff by auto
  with False sampleRow_valid show ?thesis by (simp add: rejectedWhenSpoiled_def)
qed

text \<open>
  C2, with the count the code has: the verdict on a row is the date validator on
  \<open>Date\<close> together with the numeric validator on each of the twelve required
  columns other than \<open>Date\<close>, \<open>Symbol\<close> and \<open>Series\<close>; rows that agree on
  these thirteen fields get the same verdict, so \<open>Symbol\<close>, \<open>Series\<close> and any
  other property are not tested.
\<close>

theorem validated_fields:
  "rowIsValid r =
     (isValidDate (getField r ''Date'') \<and>
      list_all (\<lambda>col. isNumeric (getField r col)) numericColumns) \<and>
   set numericColumns = set requiredColumns - {''Date'', ''Symbol'', ''Series''} \<and>
   distinct numericColumns \<and> length numericColumns = 12 \<and>
   (getField r' ''Date'' = getField r ''Date'' \<and>
    list_all (\<lambda>col. getField r' col = getField r col) numericColumns
      \<longrightarrow> rowIsValid r' = rowIsValid r)"
proof (intro conjI impI)
  show "rowIsValid r =
     (isValidDate (getField r ''Date'') \<and>
      list_all (\<lambda>col. isNumeric (getField r col)) numericColumns)"
    by (rule rowIsValid_columns)
  show "set numericColumns = set requiredColumns - {''Date'', ''Symbol'', ''Series''}"
    unfolding numericColumns_def set_filter by blast
  show "distinct numericColumns" "length numericColumns = 12"
    by (simp_all add: numericColumns_eq)
  assume a: "getField r' ''Date'' = getField r ''Date'' \<and>
    list_all (\<lambda>col. getField r' col = getField r col) numericColumns"
  then have "list_all (\<lambda>col. isNumeric (getField r' col)) numericColumns
        = list_all (\<lambda>col. isNumeric (getField r col)) numericColumns"
    unfolding list_all_iff by auto
  with a show "rowIsValid r' = rowIsValid r"
    by (simp only: rowIsValid_columns)
qed

theorem validated_fields_witness:
  "getField (setProperty ''Symbol'' [] sampleRow) ''Date'' = getField sampleRow ''Date'' \<and>
   list_all (\<lambda>col. getField (setProperty ''Symbol'' [] sampleRow) col = getField sampleRow col)
     numericColumns \<and>
   rowIsValid (setProperty ''Symbol'' [] sampleRow) \<and> rowIsValid sampleRow"
proof -
  have a: "getField (setProperty ''Symbol'' [] sampleRow) ''Date'' = getField sampleRow ''Date''"
    by (simp add: getField_setProperty_other)
  have b: "list_all (\<lambda>col. getField (setProperty ''Symbol'' [] sampleRow) col = getField sampleRow col)
     numericColumns"
    by (simp add: numericColumns_eq getField_setProperty_other)
  from validated_fields [of sampleRow "setProperty ''Symbol'' [] sampleRow"] a b sampleRow_valid
  show ?thesis by simp
qed

text \<open>
  The claim's count fails on the code: the sample row is accepted, and spoiling any one
  of twelve columns other than \<open>Date\<close> makes the code reject it.
\<close>

theorem nine_numeric_columns_counterexample:
  "filter (rejectedWhenSpoiled sampleRow) (remove1 ''Date'' requiredColumns) =
     [''Prev Close'', ''Open'', ''High'', ''Low'', ''Last'', ''Close'', ''VWAP'', ''Volume'',
      ''Turnover'', ''Trades'', ''Deliverable Volume'', ''%Deliverble''] \<and>
   length (filter (rejectedWhenSpoiled sampleRow) (remove1 ''Date'' requiredColumns)) \<noteq> 9"
proof -
  have "filter (rejectedWhenSpoiled sampleRow) (remove1 ''Date'' requiredColumns) =
     [''Prev Close'', ''Open'', ''High'', ''Low'', ''Last'', ''Close'', ''VWAP'', ''Volume'',
      ''Turnover'', ''Trades'', ''Deliverable Volume'', ''%Deliverble'']"
    by (simp add: requiredColumns_def spoiled_row numericColumns_eq)
  then show ?thesis by simp
qed

section \<open>Header rejection\<close>

lemma missingPrevClose_header:
  "filter (\<lambda>col. col \<notin> trim ` set (remove1 ''Prev Close'' requiredColumns)) requiredColumns
     = [''Prev Close'']"
  by code_simp

lemma missingPrevClose_row:
  "writeRow (remove1 ''Prev Close'' requiredColumns) (remove1 ''150'' sampleRecord) =
     [(''Date'', ''2024-10-22''), (''Symbol'', ''AAPL''), (''Series'', ''EQ''),
      (''Open'', ''152''), (''High'', ''153''), (''Low'', ''149''), (''Last'', ''151''),
      (''Close'', ''150.5''), (''VWAP'', ''151.25''), (''Volume'', ''1000000''),
      (''Turnover'', ''150000000''), (''Trades'', ''1000''),
      (''Deliverable Volume'', ''800000''), (''%Deliverble'', ''80'')]"
  by (simp add: writeRow_def requiredColumns_def sampleRecord_def setProperty_def
      enumerate_eq_zip upt_rec)

text \<open>
  C1 on the code: for the header of the specification's scenario, which lacks
  \<open>Prev Close\<close>, followed by one data record, the callback first receives the
  rejection with \<open>missingColumns = ["Prev Close"]\<close>; the data record is then
  classified and stored all the same, and at the end of the stream the callback receives
  a second result, a summary with \<open>success: true\<close>.
\<close>

theorem header_rejection_continues:
  "validateCSVContent
     [remove1 ''Prev Close'' requiredColumns, remove1 ''150'' sampleRecord] None =
   [MissingColumns [''Prev Close''],
    Completed
      \<lparr>validRows = [],
       invalidRows =
         [writeRow (remove1 ''Prev Close'' requiredColumns) (remove1 ''150'' sampleRecord)],
       successfulRecords = 0, failedRecords = 1, totalRecords = 1\<rparr>]"
proof -
  have "getField (writeRow (remove1 ''Prev Close'' requiredColumns) (remove1 ''150'' sampleRecord))
      ''Prev Close'' = None"
    by (simp add: missingPrevClose_row getField_def)
  then have "\<not> rowIsValid
      (writeRow (remove1 ''Prev Close'' requiredColumns) (remove1 ''150'' sampleRecord))"
    by (simp add: rowIsValid_columns numericColumns_eq sample_values)
  then show ?thesis
    by (simp add: validate_records missingPrevClose_header)
qed

section \<open>Padded header names\<close>

lemma setProperty_keys: "fst ` set (setProperty key v obj) \<subseteq> insert key (fst ` set obj)"
  by (auto simp: setProperty_def dom_update)

lemma setProperty_keys_in:
  "key \<in> S \<Longrightarrow> fst ` set obj \<subseteq> S \<Longrightarrow> fst ` set (setProperty key v obj) \<subseteq> S"
  using setProperty_keys [of key v obj] by blast

lemma writeRow_keys_aux:
  assumes "set headers \<subseteq> S" and "\<And>n. ''_'' @ showNat n \<in> S"
  shows "fst ` set obj0 \<subseteq> S \<Longrightarrow>
     fst ` set (foldl (\<lambda>obj (index, cell).
              if index < length headers then setProperty (headers ! index) cell obj
              else setProperty (''_'' @ showNat index) cell obj) obj0 xs) \<subseteq> S"
proof (induction xs arbitrary: obj0)
  case Nil
  then show ?case by simp
next
  case (Cons x xs)
  obtain index cell where x: "x = (index, cell)" by (cases x)
  show ?case
  proof (cases "index < length headers")
    case True
    then have "headers ! index \<in> S" using assms(1) nth_mem by blast
    then have "fst ` set (setProperty (headers ! index) cell obj0) \<subseteq> S"
      using Cons.prems by (rule setProperty_keys_in)
    then show ?thesis
      using Cons.IH [of "setProperty (headers ! index) cell obj0"] True x by simp
  next
    case False
    have "fst ` set (setProperty (''_'' @ showNat index) cell obj0) \<subseteq> S"
      using assms(2) Cons.prems by (rule setProperty_keys_in)
    then show ?thesis
      using Cons.IH [of "setProperty (''_'' @ showNat index) cell obj0"] False x by simp
  qed
qed

lemma writeRow_keys:
  "fst ` set (writeRow headers cells) \<subseteq> set headers \<union> {k. \<exists>n. k = ''_'' @ showNat n}"
  unfolding writeRow_def
  by (rule writeRow_keys_aux) auto

lemma validated_not_surplus:
  "col \<in> set (''Date'' # numericColumns) \<Longrightarrow> col \<noteq> ''_'' @ showNat n"
  by (auto simp: numericColumns_eq)

lemma absent_header_absent_field:
  assumes "col \<in> set (''Date'' # numericColumns)" and "col \<notin> set headers"
  shows "getField (writeRow headers cells) col = None"
proof -
  from assms validated_not_surplus [OF assms(1)] writeRow_keys [of headers cells]
  have "col \<notin> fst ` set (writeRow headers cells)" by blast
  then show ?thesis by (simp add: getField_def map_of_eq_None_iff)
qed

text \<open>
  C10, with the conditions the code needs: the header gate tests the trimmed names while
  the rows are keyed by the names as they stand in the header. When the trimmed header
  holds every required column, and a column that is validated (\<open>Date\<close> or one of the
  twelve numeric columns) occurs in the header only in padded form, the gate passes, the
  column is absent from every row, and every data row is classified as invalid.
\<close>

theorem padded_column_rejects_rows:
  assumes "set requiredColumns \<subseteq> trim ` set headers"
    and "col \<in> set (''Date'' # numericColumns)"
    and "col \<notin> set headers"
  shows "(\<exists>h \<in> set headers. h \<noteq> col \<and> trim h = col) \<and>
         getField (writeRow headers cells) col = None \<and>
         (\<exists>s. validateCSVContent (headers # records) None = [Completed s] \<and>
              validRows s = [] \<and> invalidRows s = map (writeRow headers) records)"
proof -
  from assms(2) have "col \<in> set requiredColumns"
    by (auto simp: numericColumns_def requiredColumns_def)
  with assms(1) obtain h where h: "h \<in> set headers" "trim h = col" by auto
  with assms(3) have "h \<noteq> col" by blast
  with h have 1: "\<exists>h \<in> set headers. h \<noteq> col \<and> trim h = col" by blast
  have 2: "getField (writeRow headers cells) col = None" for cells
    by (rule absent_header_absent_field [OF assms(2,3)])
  have "\<not> rowIsValid (writeRow headers cells)" for cells
    by (rule absent_column_invalid [OF assms(2) 2])
  then have "filter rowIsValid (map (writeRow headers) records) = []"
    "filter (\<lambda>r. \<not> rowIsValid r) (map (writeRow headers) records) = map (writeRow headers) records"
    by (simp_all add: filter_empty_conv)
  then have 3: "\<exists>s. validateCSVContent (headers # records) None = [Completed s] \<and>
              validRows s = [] \<and> invalidRows s = map (writeRow headers) records"
    by (simp add: validate_accepted [OF assms(1)])
  from 1 2 [of cells] 3 show ?thesis by (intro conjI)
qed

lemma paddedDateHeader_trimmed: "set requiredColumns \<subseteq> trim ` set paddedDateHeader"
  by code_simp

theorem padded_column_rejects_rows_witness:
  "set requiredColumns \<subseteq> trim ` set paddedDateHeader \<and>
   ''Date'' \<in> set (''Date'' # numericColumns) \<and> ''Date'' \<notin> set paddedDateHeader \<and>
   getField (writeRow paddedDateHeader sampleRecord) ''Date'' = None \<and>
   (\<exists>s. validateCSVContent [paddedDateHeader, sampleRecord] None = [Completed s] \<and>
        validRows s = [] \<and> invalidRows s = [writeRow paddedDateHeader sampleRecord])"
proof -
  have a: "''Date'' \<in> set (''Date'' # numericColumns)" by simp
  have b: "''Date'' \<notin> set paddedDateHeader"
    by (simp add: paddedDateHeader_def requiredColumns_def)
  from padded_column_rejects_rows [OF paddedDateHeader_trimmed a b, of sampleRecord "[sampleRecord]"]
    paddedDateHeader_trimmed a b
  show ?thesis by simp
qed

lemma paddedSymbolHeader_trimmed: "set requiredColumns \<subseteq> trim ` set paddedSymbolHeader"
  by code_simp

lemma paddedSymbolRow_eq:
  "writeRow paddedSymbolHeader sampleRecord =
     [(''Date'', ''2024-10-22''), ('' Symbol'', ''AAPL''), (''Series'', ''EQ''),
      (''Prev Close'', ''150''), (''Open'', ''152''), (''High'', ''153''), (''Low'', ''149''),
      (''Last'', ''151''), (''Close'', ''150.5''), (''VWAP'', ''151.25''),
      (''Volume'', ''1000000''), (''Turnover'', ''150000000''), (''Trades'', ''1000''),
      (''Deliverable Volume'', ''800000''), (''%Deliverble'', ''80'')]"
  by (simp add: writeRow_def paddedSymbolHeader_def requiredColumns_def sampleRecord_def
      setProperty_def enumerate_eq_zip upt_rec)

text \<open>
  The claim as worded fails for a padded column that has no validator: with
  \<open>Symbol\<close> padded the gate passes and the sample row is accepted.
\<close>

theorem padded_symbol_counterexample:
  "''Symbol'' \<in> set requiredColumns \<and> '' Symbol'' \<in> set paddedSymbolHeader \<and>
   trim '' Symbol'' = ''Symbol'' \<and>
   validateCSVContent [paddedSymbolHeader, sampleRecord] None =
     [Completed
        \<lparr>validRows = [writeRow paddedSymbolHeader sampleRecord], invalidRows = [],
         successfulRecords = 1, failedRecords = 0, totalRecords = 1\<rparr>]"
proof -
  have a: "''Symbol'' \<in> set requiredColumns" "'' Symbol'' \<in> set paddedSymbolHeader"
    by (simp_all add: paddedSymbolHeader_def requiredColumns_def)
  have b: "trim '' Symbol'' = ''Symbol''"
    by (simp add: trim_def isWhiteSpace_def)
  have "rowIsValid (writeRow paddedSymbolHeader sampleRecord)"
    by (simp add: rowIsValid_columns numericColumns_eq paddedSymbolRow_eq getField_def
        sample_values)
  then have "validateCSVContent [paddedSymbolHeader, sampleRecord] None =
     [Completed
        \<lparr>validRows = [writeRow paddedSymbolHeader sampleRecord], invalidRows = [],
         successfulRecords = 1, failedRecords = 0, totalRecords = 1\<rparr>]"
    by (simp add: validate_accepted [OF paddedSymbolHeader_trimmed])
  with a b show ?thesis by simp
qed

section \<open>The insertion step\<close>

lemma toDocument_spec: "toDocument r = specDocument r"
  by (simp add: toDocument_def specDocument_def requiredColumns_def persistedFields_def)

lemma map_toDocument: "map toDocument rows = map specDocument rows"
  by (simp add: toDocument_spec)

lemma insertValidRecords_calls:
  "fst (insertValidRecords insertMany req) =
     (case reqValidRows req of
        None \<Rightarrow> []
      | Some rows \<Rightarrow> if rows = [] then [] else [map toDocument rows])"
  by (cases "reqValidRows req") (simp_all add: insertValidRecords_def Let_def)

lemma uploadCallback_calls:
  "fst (uploadCallback insertMany (Completed s)) =
     (if validRows s = [] then [] else [map toDocument (validRows s)])"
  by (simp add: uploadCallback_def insertValidRecords_calls)

lemma sampleDocument_eq:
  "toDocument sampleRow =
     [(''date'', Some ''2024-10-22''), (''symbol'', Some ''AAPL''), (''series'', Some ''EQ''),
      (''prev_close'', Some ''150''), (''open'', Some ''152''), (''high'', Some ''153''),
      (''low'', Some ''149''), (''last'', Some ''151''), (''close'', Some ''150.5''),
      (''vwap'', Some ''151.25''), (''volume'', Some ''1000000''),
      (''turnover'', Some ''150000000''), (''trades'', Some ''1000''),
      (''deliverable'', Some ''800000''), (''percentage_deliverable'', Some ''80'')]"
  by (simp add: toDocument_def sampleRow_eq getField_def)

text \<open>
  C9: a validation that completes with \<open>success: true\<close> and no valid row is answered
  with status 400 and the message that there are no valid rows, without a call of the
  gateway. After a completed validation the gateway is called exactly when
  \<open>validRows\<close> is non-empty: then once, with the valid rows in order, each turned into
  the document that holds under every persisted field name the row's raw value of the
  matching required column, and the response is 201 or 500 as the gateway answers. After
  a failed validation the gateway is not called. The same holds of the insertion step on
  any request.
\<close>

theorem insertion_gate:
  "(validRows s = [] \<longrightarrow>
      uploadCallback insertMany (Completed s) =
        ([], NoValidRows 400 ''No valid rows to insert into the database'')) \<and>
   (fst (uploadCallback insertMany (Completed s)) \<noteq> [] \<longleftrightarrow> validRows s \<noteq> []) \<and>
   (validRows s \<noteq> [] \<longrightarrow>
      uploadCallback insertMany (Completed s) =
        ([map specDocument (validRows s)],
         case insertMany (map specDocument (validRows s)) of
           Inr insertedRecords \<Rightarrow>
             Inserted 201 ''Records inserted successfully'' insertedRecords (Some (Completed s))
         | Inl error \<Rightarrow> DbFailed 500 ''DB insertion failed'' error)) \<and>
   fst (uploadCallback insertMany (MissingColumns cols)) = [] \<and>
   fst (uploadCallback insertMany (StreamError msg)) = [] \<and>
   (fst (insertValidRecords insertMany req) \<noteq> [] \<longleftrightarrow>
      (\<exists>rows. reqValidRows req = Some rows \<and> rows \<noteq> [])) \<and>
   (reqValidRows req = Some rows \<and> rows \<noteq> [] \<longrightarrow>
      fst (insertValidRecords insertMany req) = [map specDocument rows]) \<and>
   toDocument r = specDocument r \<and>
   map fst (toDocument r) = persistedFields"
proof (intro conjI impI)
  assume "validRows s = []"
  then show "uploadCallback insertMany (Completed s) =
        ([], NoValidRows 400 ''No valid rows to insert into the database'')"
    by (simp add: uploadCallback_def insertValidRecords_def)
next
  show "(fst (uploadCallback insertMany (Completed s)) \<noteq> []) = (validRows s \<noteq> [])"
    by (simp add: uploadCallback_calls)
next
  assume "validRows s \<noteq> []"
  then show "uploadCallback insertMany (Completed s) =
        ([map specDocument (validRows s)],
         case insertMany (map specDocument (validRows s)) of
           Inr insertedRecords \<Rightarrow>
             Inserted 201 ''Records inserted successfully'' insertedRecords (Some (Completed s))
         | Inl error \<Rightarrow> DbFailed 500 ''DB insertion failed'' error)"
    by (simp add: uploadCallback_def insertValidRecords_def Let_def map_toDocument
        split: sum.splits)
next
  show "fst (uploadCallback insertMany (MissingColumns cols)) = []"
    "fst (uploadCallback insertMany (StreamError msg)) = []"
    by (simp_all add: uploadCallback_def)
next
  show "(fst (insertValidRecords insertMany req) \<noteq> []) =
      (\<exists>rows. reqValidRows req = Some rows \<and> rows \<noteq> [])"
    by (cases "reqValidRows req") (simp_all add: insertValidRecords_calls)
next
  assume "reqValidRows req = Some rows \<and> rows \<noteq> []"
  then show "fst (insertValidRecords insertMany req) = [map specDocument rows]"
    by (simp add: insertValidRecords_calls map_toDocument)
next
  show "toDocument r = specDocument r"
    by (rule toDocument_spec)
next
  show "map fst (toDocument r) = persistedFields"
    by (simp add: toDocument_def persistedFields_def)
qed

theorem insertion_gate_witness:
  "uploadCallback acceptAll
     (Completed \<lparr>validRows = [], invalidRows = [writeRow requiredColumns badDateRecord],
        successfulRecords = 0, failedRecords = 1, totalRecords = 1\<rparr>) =
     ([], NoValidRows 400 ''No valid rows to insert into the database'') \<and>
   uploadCallback acceptAll
     (Completed \<lparr>validRows = [sampleRow], invalidRows = [],
        successfulRecords = 1, failedRecords = 0, totalRecords = 1\<rparr>) =
     ([[specDocument sampleRow]],
      Inserted 201 ''Records inserted successfully'' [specDocument sampleRow]
        (Some (Completed \<lparr>validRows = [sampleRow], invalidRows = [],
           successfulRecords = 1, failedRecords = 0, totalRecords = 1\<rparr>))) \<and>
   specDocument sampleRow =
     [(''date'', Some ''2024-10-22''), (''symbol'', Some ''AAPL''), (''series'', Some ''EQ''),
      (''prev_close'', Some ''150''), (''open'', Some ''152''), (''high'', Some ''153''),
      (''low'', Some ''149''), (''last'', Some ''151''), (''close'', Some ''150.5''),
      (''vwap'', Some ''151.25''), (''volume'', Some ''1000000''),
      (''turnover'', Some ''150000000''), (''trades'', Some ''1000''),
      (''deliverable'', Some ''800000''), (''percentage_deliverable'', Some ''80'')] \<and>
   fst (insertValidRecords acceptAll
     \<lparr>reqValidRows = Some [sampleRow], reqInvalidRows = Some [], validationDetails = None\<rparr>)
     = [[specDocument sampleRow]]"
proof -
  note a = insertion_gate [of
      "\<lparr>validRows = [], invalidRows = [writeRow requiredColumns badDateRecord],
        successfulRecords = 0, failedRecords = 1, totalRecords = 1\<rparr>"
      acceptAll]
  note b = insertion_gate [of
      "\<lparr>validRows = [sampleRow], invalidRows = [],
        successfulRecords = 1, failedRecords = 0, totalRecords = 1\<rparr>"
      acceptAll "[]" "[]"
      "\<lparr>reqValidRows = Some [sampleRow], reqInvalidRows = Some [], validationDetails = None\<rparr>"
      "[sampleRow]" sampleRow]
  have c: "toDocument sampleRow = specDocument sampleRow"
    using b by (elim conjE)
  have 1: "uploadCallback acceptAll
     (Completed \<lparr>validRows = [], invalidRows = [writeRow requiredColumns badDateRecord],
        successfulRecords = 0, failedRecords = 1, totalRecords = 1\<rparr>) =
     ([], NoValidRows 400 ''No valid rows to insert into the database'')"
    using a by simp
  have 2: "uploadCallback acceptAll
     (Completed \<lparr>validRows = [sampleRow], invalidRows = [],
        successfulRecords = 1, failedRecords = 0, totalRecords = 1\<rparr>) =
     ([[specDocument sampleRow]],
      Inserted 201 ''Records inserted successfully'' [specDocument sampleRow]
        (Some (Completed \<lparr>validRows = [sampleRow], invalidRows = [],
           successfulRecords = 1, failedRecords = 0, totalRecords = 1\<rparr>)))"
    using b by (simp add: acceptAll_def)
  have 3: "specDocument sampleRow =
     [(''date'', Some ''2024-10-22''), (''symbol'', Some ''AAPL''), (''series'', Some ''EQ''),
      (''prev_close'', Some ''150''), (''open'', Some ''152''), (''high'', Some ''153''),
      (''low'', Some ''149''), (''last'', Some ''151''), (''close'', Some ''150.5''),
      (''vwap'', Some ''151.25''), (''volume'', Some ''1000000''),
      (''turnover'', Some ''150000000''), (''trades'', Some ''1000''),
      (''deliverable'', Some ''800000''), (''percentage_deliverable'', Some ''80'')]"
    unfolding c [symmetric] by (rule sampleDocument_eq)
  have 4: "fst (insertValidRecords acceptAll
     \<lparr>reqValidRows = Some [sampleRow], reqInvalidRows = Some [], validationDetails = None\<rparr>)
     = [[specDocument sampleRow]]"
    using b by simp
  from 1 2 3 4 show ?thesis by (intro conjI)
qed

section \<open>Properties of the numeric validator\<close>

lemma trimStart_trim: "trimStart s = trim s @ rev (takeWhile isWhiteSpace (rev (trimStart s)))"
proof -
  define u where "u = trimStart s"
  have "rev (dropWhile isWhiteSpace (rev u)) @ rev (takeWhile isWhiteSpace (rev u))
      = rev (takeWhile isWhiteSpace (rev u) @ dropWhile isWhiteSpace (rev u))"
    by (simp only: rev_append)
  also have "\<dots> = rev (rev u)"
    by (simp only: takeWhile_dropWhile_id)
  also have "\<dots> = u" by simp
  finally have "u = rev (dropWhile isWhiteSpace (rev u)) @ rev (takeWhile isWhiteSpace (rev u))"
    by (rule sym)
  then show ?thesis
    unfolding u_def trim_def trimStart_def .
qed

lemma trim_Nil_trimStart: "trim s = [] \<Longrightarrow> trimStart s = []"
proof (rule ccontr)
  assume t: "trim s = []" and n: "trimStart s \<noteq> []"
  from n have "\<not> isWhiteSpace (hd (trimStart s))"
    unfolding trimStart_def by (rule hd_dropWhile)
  moreover from t have "\<forall>c \<in> set (rev (trimStart s)). isWhiteSpace c"
    by (simp add: trim_def trimStart_def dropWhile_eq_Nil_conv)
  ultimately show False using n by (simp add: hd_in_set)
qed

lemma takeWhile_Nil_hd: "(takeWhile P s = []) = (s = [] \<or> \<not> P (hd s))"
  by (cases s) auto

lemma exponentPart_not_e:
  "c \<noteq> CHR ''e'' \<Longrightarrow> c \<noteq> CHR ''E'' \<Longrightarrow> exponentPart (c # r) = (0, c # r)"
  by (simp add: exponentPart_def)

lemma unsigned_Some_iff:
  "(strUnsignedDecimalLiteral s \<noteq> None) =
     (take 8 s = ''Infinity'' \<or> (s \<noteq> [] \<and> isDigit (hd s)) \<or>
      (s \<noteq> [] \<and> hd s = CHR ''.'' \<and> tl s \<noteq> [] \<and> isDigit (hd (tl s))))"
proof (cases "take 8 s = ''Infinity''")
  case True
  then show ?thesis by (simp add: strUnsignedDecimalLiteral_def)
next
  case inf: False
  show ?thesis
  proof (cases "s \<noteq> [] \<and> isDigit (hd s)")
    case True
    then have "takeWhile isDigit s \<noteq> []" by (simp add: takeWhile_Nil_hd)
    with True inf show ?thesis
      by (simp add: strUnsignedDecimalLiteral_def Let_def)
  next
    case False
    then have ip: "takeWhile isDigit s = []" and r1: "dropWhile isDigit s = s"
      by (cases s; auto)+
    have dot: "\<not> isDigit CHR ''.''" by (simp add: isDigit_def)
    show ?thesis
      using False inf dot
      by (auto simp: strUnsignedDecimalLiteral_def Let_def ip r1 takeWhile_Nil_hd)
  qed
qed

lemma unsigned_append:
  assumes "strUnsignedDecimalLiteral s \<noteq> None"
  shows "strUnsignedDecimalLiteral (s @ w) \<noteq> None"
proof -
  from assms have "take 8 s = ''Infinity'' \<or> (s \<noteq> [] \<and> isDigit (hd s)) \<or>
      (s \<noteq> [] \<and> hd s = CHR ''.'' \<and> tl s \<noteq> [] \<and> isDigit (hd (tl s)))"
    by (simp only: unsigned_Some_iff)
  then show ?thesis
  proof (elim disjE)
    assume 1: "take 8 s = ''Infinity''"
    then have "length (take 8 s) = 8" by simp
    then have "8 \<le> length s" by simp
    with 1 have "take 8 (s @ w) = ''Infinity''" by simp
    then show ?thesis by (simp only: unsigned_Some_iff simp_thms)
  next
    assume "s \<noteq> [] \<and> isDigit (hd s)"
    then have "s @ w \<noteq> [] \<and> isDigit (hd (s @ w))" by simp
    then show ?thesis by (simp only: unsigned_Some_iff simp_thms)
  next
    assume "s \<noteq> [] \<and> hd s = CHR ''.'' \<and> tl s \<noteq> [] \<and> isDigit (hd (tl s))"
    then have "s @ w \<noteq> [] \<and> hd (s @ w) = CHR ''.'' \<and> tl (s @ w) \<noteq> [] \<and>
        isDigit (hd (tl (s @ w)))"
      by simp
    then show ?thesis by (simp only: unsigned_Some_iff simp_thms)
  qed
qed

lemma strDecimalLiteral_append:
  assumes "strDecimalLiteral s \<noteq> None"
  shows "strDecimalLiteral (s @ w) \<noteq> None"
proof (cases "s \<noteq> [] \<and> (hd s = CHR ''+'' \<or> hd s = CHR ''-'')")
  case True
  with assms have "strUnsignedDecimalLiteral (tl s) \<noteq> None"
    by (simp add: strDecimalLiteral_def)
  then have "strUnsignedDecimalLiteral (tl s @ w) \<noteq> None" by (rule unsigned_append)
  with True show ?thesis by (simp add: strDecimalLiteral_def)
next
  case False
  with assms have a: "strUnsignedDecimalLiteral s \<noteq> None"
    by (simp add: strDecimalLiteral_def)
  then have "s \<noteq> []" unfolding unsigned_Some_iff by auto
  with False have "strDecimalLiteral (s @ w) = strUnsignedDecimalLiteral (s @ w)"
    by (simp add: strDecimalLiteral_def)
  with unsigned_append [OF a] show ?thesis by simp
qed

lemma nonDecimal_shape:
  assumes "nonDecimalIntegerLiteral t = Some n"
  shows "\<exists>x ds. t = CHR ''0'' # x # ds \<and> x \<in> set ''xXoObB''"
  using assms
  by (auto simp: nonDecimalIntegerLiteral_def split: list.splits if_splits)

lemma nonDecimal_decimal_prefix:
  assumes "nonDecimalIntegerLiteral t = Some n"
  shows "strDecimalLiteral t = Some (Decimal ''0'' [] 0, tl t)"
proof -
  from nonDecimal_shape [OF assms] obtain x ds
    where t: "t = CHR ''0'' # x # ds" and x: "x \<in> set ''xXoObB''" by blast
  from x have nd: "\<not> isDigit x" "x \<noteq> CHR ''.''" "x \<noteq> CHR ''e''" "x \<noteq> CHR ''E''"
    by (auto simp: isDigit_def)
  have inf: "take 8 t \<noteq> ''Infinity''" by (simp add: t)
  have d0: "isDigit CHR ''0''" by (simp add: isDigit_def)
  show ?thesis
    using nd inf d0 unfolding t
    by (simp add: strDecimalLiteral_def strUnsignedDecimalLiteral_def Let_def
        exponentPart_not_e)
qed

lemma parseFloat_NaN_iff:
  "(parseFloat (Some s) = NaN) = (strDecimalLiteral (trimStart s) = None)"
proof (cases "strDecimalLiteral (trimStart s)")
  case None
  then show ?thesis by (simp add: parseFloat_def toString_def)
next
  case (Some p)
  obtain l rest where "p = (l, rest)" by (cases p)
  moreover have "classify l \<noteq> NaN"
    by (cases l) (simp_all add: classify_def)
  ultimately show ?thesis using Some by (simp add: parseFloat_def toString_def)
qed

lemma isNumeric_string:
  "isNumeric (Some s) = (finiteDecimal (trim s) \<or> finiteNonDecimal (trim s))"
proof (cases "trim s = []")
  case True
  then have "strDecimalLiteral (trimStart s) = None"
    by (simp add: trim_Nil_trimStart strDecimalLiteral_def strUnsignedDecimalLiteral_def)
  then have "\<not> isNumeric (Some s)"
    by (simp add: isNumeric_def isNaN_def parseFloat_NaN_iff)
  moreover have "\<not> finiteDecimal []" "\<not> finiteNonDecimal []"
    by (simp_all add: finiteDecimal_def finiteNonDecimal_def strDecimalLiteral_def
        strUnsignedDecimalLiteral_def nonDecimalIntegerLiteral_def)
  ultimately show ?thesis using True by simp
next
  case ne: False
  define t where "t = trim s"
  obtain w where w: "trimStart s = t @ w"
    using trimStart_trim [of s] t_def by blast
  have fin: "(stringToNumber s = Finite) = (finiteDecimal t \<or> finiteNonDecimal t)"
  proof (cases "nonDecimalIntegerLiteral t")
    case None
    then show ?thesis using ne
      by (auto simp: stringToNumber_def t_def [symmetric] finiteDecimal_def finiteNonDecimal_def
          split: option.splits list.splits prod.splits)
  next
    case (Some n)
    from nonDecimal_shape [OF Some] have "tl t \<noteq> []" by auto
    with nonDecimal_decimal_prefix [OF Some] Some ne show ?thesis
      by (simp add: stringToNumber_def t_def [symmetric] finiteDecimal_def finiteNonDecimal_def
          split: list.splits)
  qed
  have pf: "strDecimalLiteral (trimStart s) \<noteq> None" if "finiteDecimal t \<or> finiteNonDecimal t"
  proof -
    from that have "strDecimalLiteral t \<noteq> None"
    proof
      assume "finiteDecimal t"
      then show ?thesis by (auto simp: finiteDecimal_def split: option.splits)
    next
      assume "finiteNonDecimal t"
      then obtain n where "nonDecimalIntegerLiteral t = Some n"
        by (auto simp: finiteNonDecimal_def split: option.splits)
      from nonDecimal_decimal_prefix [OF this] show ?thesis by simp
    qed
    then show ?thesis unfolding w by (rule strDecimalLiteral_append)
  qed
  show ?thesis
    using fin pf
    by (auto simp: isNumeric_def isNaN_def parseFloat_NaN_iff isFinite_def toNumber_def
        t_def [symmetric])
qed

section \<open>The parser of decimal literals against the grammar\<close>

lemma takeWhile_digits_stop:
  assumes "list_all isDigit ds" and "r = [] \<or> \<not> isDigit (hd r)"
  shows "takeWhile isDigit (ds @ r) = ds" and "dropWhile isDigit (ds @ r) = r"
proof -
  from assms(2) have "takeWhile isDigit r = []" "dropWhile isDigit r = r"
    by (cases r; auto)+
  with assms(1) show "takeWhile isDigit (ds @ r) = ds" "dropWhile isDigit (ds @ r) = r"
    by (simp_all add: list_all_iff takeWhile_append2 dropWhile_append2)
qed

lemma signText_cases:
  "signText sg \<Longrightarrow> sg = [] \<or> sg = ''+'' \<or> sg = ''-''"
  by (simp add: signText_def)

lemma not_digit_chars:
  "\<not> isDigit CHR ''+''" "\<not> isDigit CHR ''-''" "\<not> isDigit CHR ''.''" "\<not> isDigit CHR ''e''"
  "\<not> isDigit CHR ''E''" "\<not> isDigit CHR ''I''"
  by (simp_all add: isDigit_def)

lemma exponentPart_complete:
  assumes "exponentText ex e"
  shows "exponentPart ex = (e, [])"
proof (cases "ex = []")
  case True
  with assms show ?thesis
    by (auto simp: exponentText_def exponentPart_def)
next
  case False
  with assms obtain c sg ds where c: "c = CHR ''e'' \<or> c = CHR ''E''" and sg: "signText sg"
    and ds: "ds \<noteq> []" "list_all isDigit ds" and ex: "ex = c # sg @ ds"
    and e: "e = (if sg = ''-'' then - toInt ds else toInt ds)"
    by (auto simp: exponentText_def)
  from ds have "isDigit (hd ds)" by (cases ds) auto
  with not_digit_chars(1,2) have hd: "hd ds \<noteq> CHR ''+''" "hd ds \<noteq> CHR ''-''" by auto
  have tw: "takeWhile isDigit ds = ds" "dropWhile isDigit ds = []"
    using takeWhile_digits_stop [OF ds(2), of "[]"] by simp_all
  from signText_cases [OF sg] show ?thesis
  proof (elim disjE)
    assume "sg = []"
    with c ds(1) hd e ex show ?thesis
      by (auto simp: exponentPart_def Let_def tw)
  next
    assume "sg = ''+''"
    with c ds(1) e ex show ?thesis
      by (auto simp: exponentPart_def Let_def tw)
  next
    assume "sg = ''-''"
    with c ds(1) e ex show ?thesis
      by (auto simp: exponentPart_def Let_def tw)
  qed
qed

lemma exponentPart_sound:
  assumes "exponentPart ex = (e, [])"
  shows "exponentText ex e"
proof (cases ex)
  case Nil
  with assms show ?thesis by (simp add: exponentText_def exponentPart_def)
next
  case (Cons c r)
  define sg where "sg = (if r \<noteq> [] \<and> (hd r = CHR ''+'' \<or> hd r = CHR ''-'') then [hd r] else [])"
  define r' where "r' = (if r \<noteq> [] \<and> (hd r = CHR ''+'' \<or> hd r = CHR ''-'') then tl r else r)"
  define ds where "ds = takeWhile isDigit r'"
  have r: "r = sg @ r'" by (simp add: sg_def r'_def)
  have sgt: "signText sg" by (auto simp: sg_def signText_def)
  have neg: "(r \<noteq> [] \<and> hd r = CHR ''-'') = (sg = ''-'')"
    by (auto simp: sg_def)
  from assms Cons have c: "c = CHR ''e'' \<or> c = CHR ''E''"
    by (auto simp: exponentPart_def split: if_splits)
  with assms Cons have nz: "ds \<noteq> []"
    by (auto simp: exponentPart_def Let_def ds_def r'_def split: if_splits)
  from assms Cons c nz have rest: "dropWhile isDigit r' = []"
    and e: "e = (if sg = ''-'' then - toInt ds else toInt ds)"
    unfolding neg [symmetric]
    by (auto simp: exponentPart_def Let_def ds_def r'_def split: if_splits)
  from rest have all: "list_all isDigit r'"
    by (simp add: dropWhile_eq_Nil_conv list_all_iff)
  then have "ds = r'" by (simp add: ds_def list_all_iff)
  with c sgt nz all e Cons r show ?thesis
    unfolding exponentText_def by blast
qed

lemma exponentPart_iff: "(exponentPart ex = (e, [])) = exponentText ex e"
  using exponentPart_complete exponentPart_sound by blast

lemma exponentText_head:
  "exponentText ex e \<Longrightarrow> ex = [] \<or> (\<not> isDigit (hd ex) \<and> hd ex \<noteq> CHR ''.'')"
  by (auto simp: exponentText_def isDigit_def)

lemma take8_Infinity_hd:
  assumes "take 8 body = ''Infinity''"
  shows "body \<noteq> [] \<and> hd body = CHR ''I''"
proof -
  have "body = take 8 body @ drop 8 body" by simp
  then have "body = ''Infinity'' @ drop 8 body" by (simp only: assms)
  then have "body = CHR ''I'' # (''nfinity'' @ drop 8 body)" by simp
  then show ?thesis by (metis list.sel(1) list.distinct(1))
qed

lemma unsigned_complete:
  assumes "unsignedText body l"
  shows "strUnsignedDecimalLiteral body = Some (l, [])"
proof (cases "body = ''Infinity'' \<and> l = InfinityLiteral")
  case True
  then show ?thesis
    by (simp add: strUnsignedDecimalLiteral_def)
next
  case False
  with assms have "\<exists>ip fp ex e. list_all isDigit ip \<and> list_all isDigit fp \<and> exponentText ex e \<and>
         l = Decimal ip fp e \<and>
         ((ip \<noteq> [] \<and> fp = [] \<and> body = ip @ ex) \<or>
          ((ip \<noteq> [] \<or> fp \<noteq> []) \<and> body = ip @ CHR ''.'' # fp @ ex))"
    by (simp only: unsignedText_def simp_thms)
  then obtain ip fp ex e where ip: "list_all isDigit ip" and fp: "list_all isDigit fp"
    and ex: "exponentText ex e" and l: "l = Decimal ip fp e"
    and body: "(ip \<noteq> [] \<and> fp = [] \<and> body = ip @ ex) \<or>
          ((ip \<noteq> [] \<or> fp \<noteq> []) \<and> body = ip @ CHR ''.'' # fp @ ex)"
    by (elim exE conjE)
  note ep = exponentPart_complete [OF ex]
  note eh = exponentText_head [OF ex]
  from body show ?thesis
  proof (rule disjE)
    assume "ip \<noteq> [] \<and> fp = [] \<and> body = ip @ ex"
    then have a: "ip \<noteq> []" "fp = []" "body = ip @ ex" by simp_all
    from a(1) ip have "isDigit (hd body)" by (cases ip) (auto simp: a(3))
    then have inf: "take 8 body \<noteq> ''Infinity''"
      using not_digit_chars(6) take8_Infinity_hd [of body] by auto
    from eh have stop: "ex = [] \<or> \<not> isDigit (hd ex)" by blast
    from eh have nodot: "(ex \<noteq> [] \<and> hd ex = CHR ''.'') = False" by blast
    have tw: "takeWhile isDigit body = ip" "dropWhile isDigit body = ex"
      unfolding a(3) by (rule takeWhile_digits_stop [OF ip stop])+
    show ?thesis
      using inf a(1)
      by (simp add: strUnsignedDecimalLiteral_def Let_def tw nodot ep l a(2))
  next
    assume "(ip \<noteq> [] \<or> fp \<noteq> []) \<and> body = ip @ CHR ''.'' # fp @ ex"
    then have a: "ip \<noteq> [] \<or> fp \<noteq> []" "body = ip @ CHR ''.'' # fp @ ex" by simp_all
    have "hd body \<noteq> CHR ''I''"
      using ip not_digit_chars(6) by (cases ip) (auto simp: a(2))
    then have inf: "take 8 body \<noteq> ''Infinity''"
      using take8_Infinity_hd [of body] by auto
    have stop1: "CHR ''.'' # fp @ ex = [] \<or> \<not> isDigit (hd (CHR ''.'' # fp @ ex))"
      by (simp add: not_digit_chars)
    from eh have stop2: "ex = [] \<or> \<not> isDigit (hd ex)" by blast
    have tw1: "takeWhile isDigit body = ip" "dropWhile isDigit body = CHR ''.'' # fp @ ex"
      unfolding a(2) by (rule takeWhile_digits_stop [OF ip stop1])+
    have tw2: "takeWhile isDigit (fp @ ex) = fp" "dropWhile isDigit (fp @ ex) = ex"
      by (rule takeWhile_digits_stop [OF fp stop2])+
    show ?thesis
      using inf a(1)
      by (simp add: strUnsignedDecimalLiteral_def Let_def tw1 tw2 ep l)
  qed
qed

lemma unsigned_sound:
  assumes "strUnsignedDecimalLiteral body = Some (l, [])"
  shows "unsignedText body l"
proof (cases "take 8 body = ''Infinity''")
  case True
  with assms have "drop 8 body = []" "l = InfinityLiteral"
    by (simp_all add: strUnsignedDecimalLiteral_def)
  with True have "body = ''Infinity''" "l = InfinityLiteral"
    by (metis append_take_drop_id append_Nil2, simp)
  then show ?thesis by (simp add: unsignedText_def)
next
  case inf: False
  define ip where "ip = takeWhile isDigit body"
  define r1 where "r1 = dropWhile isDigit body"
  have body: "body = ip @ r1" by (simp add: ip_def r1_def)
  have ipd: "list_all isDigit ip"
    by (simp add: ip_def list_all_iff) (meson set_takeWhileD)
  show ?thesis
  proof (cases "r1 \<noteq> [] \<and> hd r1 = CHR ''.''")
    case True
    define fp where "fp = takeWhile isDigit (tl r1)"
    define r2 where "r2 = dropWhile isDigit (tl r1)"
    have r1: "r1 = CHR ''.'' # fp @ r2"
      using True by (cases r1) (auto simp: fp_def r2_def)
    have fpd: "list_all isDigit fp"
      by (simp add: fp_def list_all_iff) (meson set_takeWhileD)
    from assms inf True have ne: "ip \<noteq> [] \<or> fp \<noteq> []"
      and l: "l = Decimal ip fp (fst (exponentPart r2))" and rest: "snd (exponentPart r2) = []"
      by (auto simp: strUnsignedDecimalLiteral_def Let_def ip_def [symmetric] r1_def [symmetric]
          fp_def [symmetric] r2_def [symmetric] split: if_splits)
    from rest have "exponentPart r2 = (fst (exponentPart r2), [])"
      by (metis prod.collapse)
    then have "exponentText r2 (fst (exponentPart r2))" by (rule exponentPart_sound)
    with ipd fpd ne l body r1 show ?thesis
      unfolding unsignedText_def by blast
  next
    case False
    from assms inf False have ne: "ip \<noteq> []"
      and l: "l = Decimal ip [] (fst (exponentPart r1))" and rest: "snd (exponentPart r1) = []"
      by (auto simp: strUnsignedDecimalLiteral_def Let_def ip_def [symmetric] r1_def [symmetric]
          split: if_splits)
    from rest have "exponentPart r1 = (fst (exponentPart r1), [])"
      by (metis prod.collapse)
    then have "exponentText r1 (fst (exponentPart r1))" by (rule exponentPart_sound)
    with ipd ne l body show ?thesis
      unfolding unsignedText_def
      by (intro disjI2 exI [of _ ip] exI [of _ "[]"] exI [of _ r1]
          exI [of _ "fst (exponentPart r1)"]) simp
  qed
qed

lemma unsignedText_head:
  assumes "unsignedText body l"
  shows "body \<noteq> [] \<and> hd body \<noteq> CHR ''+'' \<and> hd body \<noteq> CHR ''-''"
proof -
  from unsigned_complete [OF assms] have "strUnsignedDecimalLiteral body \<noteq> None" by simp
  then show ?thesis
    unfolding unsigned_Some_iff using not_digit_chars(1,2)
    by (cases body) auto
qed

lemma strDecimalLiteral_iff: "(strDecimalLiteral t = Some (l, [])) = decimalText t l"
proof
  assume a: "strDecimalLiteral t = Some (l, [])"
  show "decimalText t l"
  proof (cases "t \<noteq> [] \<and> (hd t = CHR ''+'' \<or> hd t = CHR ''-'')")
    case True
    with a have "unsignedText (tl t) l"
      by (simp add: strDecimalLiteral_def unsigned_sound)
    moreover from True have "signText [hd t]" "t = [hd t] @ tl t"
      by (auto simp: signText_def)
    ultimately show ?thesis unfolding decimalText_def by blast
  next
    case False
    with a have "unsignedText t l"
      by (simp add: strDecimalLiteral_def unsigned_sound)
    moreover have "signText []" "t = [] @ t" by (simp_all add: signText_def)
    ultimately show ?thesis unfolding decimalText_def by blast
  qed
next
  assume "decimalText t l"
  then obtain sg body where sg: "signText sg" and t: "t = sg @ body" and u: "unsignedText body l"
    unfolding decimalText_def by blast
  note h = unsignedText_head [OF u]
  from signText_cases [OF sg] show "strDecimalLiteral t = Some (l, [])"
  proof (elim disjE)
    assume "sg = []"
    with h t show ?thesis
      by (simp add: strDecimalLiteral_def unsigned_complete [OF u])
  next
    assume "sg = ''+''"
    with t show ?thesis
      by (simp add: strDecimalLiteral_def unsigned_complete [OF u])
  next
    assume "sg = ''-''"
    with t show ?thesis
      by (simp add: strDecimalLiteral_def unsigned_complete [OF u])
  qed
qed

lemma finiteDecimal_text: "finiteDecimal t = finiteDecimalText t"
proof -
  have "finiteDecimal t = (\<exists>l. strDecimalLiteral t = Some (l, []) \<and> classify l = Finite)"
    by (auto simp: finiteDecimal_def split: option.splits list.splits prod.splits)
  then show ?thesis
    by (simp add: finiteDecimalText_def strDecimalLiteral_iff)
qed

section \<open>The two field validators\<close>

text \<open>
  C6: on a string the date validator answers true exactly when the string has the shape
  \<open>YYYY-MM-DD\<close> (four digits, hyphen, two digits, hyphen, two digits, and nothing
  else) and year, month and day denote a calendar date; it rejects \<open>2024-02-30\<close> and
  \<open>22-10-2024\<close> and accepts \<open>2024-10-22\<close>.
\<close>

theorem date_validator_format:
  "isValidDate (Some s) = specValidDate s \<and>
   \<not> isValidDate (Some ''2024-02-30'') \<and>
   \<not> isValidDate (Some ''22-10-2024'') \<and>
   isValidDate (Some ''2024-10-22'')"
proof (intro conjI)
  show "isValidDate (Some s) = specValidDate s"
    using isoDate_sound [of s] isoDate_complete [of s]
    by (auto simp: isValidDate_def toString_def)
  show "\<not> isValidDate (Some ''2024-02-30'')"
    by code_simp
  show "\<not> isValidDate (Some ''22-10-2024'')" "isValidDate (Some ''2024-10-22'')"
    by (simp_all add: sample_values)
qed

text \<open>
  C7, with the literals the code accepts: on a string the numeric validator answers
  true exactly when the trimmed string is, as a whole, the text of a decimal number or a
  \<open>0x\<close>, \<open>0o\<close> or \<open>0b\<close> integer literal, with a finite value. It answers
  false for \<open>NaN\<close>, \<open>Infinity\<close>, the empty string, a missing value, and every
  string that is not as a whole one of these literals, such as a number followed by
  other characters; being a total function it answers for every input.
\<close>

theorem numeric_validator:
  "isNumeric (Some s) = (finiteDecimalText (trim s) \<or> finiteNonDecimal (trim s)) \<and>
   \<not> isNumeric (Some ''NaN'') \<and> \<not> isNumeric (Some ''Infinity'') \<and>
   \<not> isNumeric (Some []) \<and> \<not> isNumeric None \<and>
   ((\<forall>l. \<not> decimalText (trim s) l) \<and> nonDecimalIntegerLiteral (trim s) = None
      \<longrightarrow> \<not> isNumeric (Some s))"
proof (intro conjI impI)
  show "isNumeric (Some s) = (finiteDecimalText (trim s) \<or> finiteNonDecimal (trim s))"
    by (simp only: isNumeric_string finiteDecimal_text)
  show "\<not> isNumeric (Some ''NaN'')" "\<not> isNumeric (Some ''Infinity'')" "\<not> isNumeric (Some [])"
    by code_simp+
  show "\<not> isNumeric None"
    by (rule sample_values)
  assume "(\<forall>l. \<not> decimalText (trim s) l) \<and> nonDecimalIntegerLiteral (trim s) = None"
  then show "\<not> isNumeric (Some s)"
    by (simp add: isNumeric_string finiteDecimal_text finiteDecimalText_def finiteNonDecimal_def)
qed

theorem numeric_validator_witness:
  "(\<forall>l. \<not> decimalText (trim ''12abc'') l) \<and>
   nonDecimalIntegerLiteral (trim ''12abc'') = None \<and>
   \<not> isNumeric (Some ''12abc'')"
proof -
  have t: "trim ''12abc'' = ''12abc''"
    by (simp add: trim_def isWhiteSpace_def)
  have "strDecimalLiteral ''12abc'' = Some (Decimal ''12'' [] 0, ''abc'')"
    by (simp add: strDecimalLiteral_def strUnsignedDecimalLiteral_def isDigit_def
        exponentPart_def Let_def)
  then have a: "\<forall>l. \<not> decimalText (trim ''12abc'') l"
    unfolding t by (simp add: strDecimalLiteral_iff [symmetric])
  have b: "nonDecimalIntegerLiteral (trim ''12abc'') = None"
    unfolding t by (simp add: nonDecimalIntegerLiteral_def)
  have "(\<forall>l. \<not> decimalText (trim ''12abc'') l) \<and>
      nonDecimalIntegerLiteral (trim ''12abc'') = None \<longrightarrow> \<not> isNumeric (Some ''12abc'')"
    using numeric_validator [of "''12abc''"] by (elim conjE)
  with a b show ?thesis by (simp only: simp_thms)
qed

text \<open>
  The claim's reading, decimal only, fails on the code: \<open>0x10\<close> is accepted although
  it is not the text of a decimal number.
\<close>

theorem hexadecimal_counterexample:
  "isNumeric (Some ''0x10'') \<and> \<not> finiteDecimalText (trim ''0x10'')"
  unfolding finiteDecimal_text [symmetric] by code_simp

end
